theory Spec2Isabelle
  imports Main "HOL-Library.AList"
begin

text \<open>
  A model of two stages of the arbitrage pipeline: the Bundle Simulator
  (\<^verbatim>\<open>simulateBundle\<close> and \<^verbatim>\<open>resetFork\<close> of bundle-simulator.ts, and the second
  copy of \<^verbatim>\<open>resetFork\<close> in src/unnamed/part_003) and the Mempool Ingestor
  (\<^verbatim>\<open>handlePendingTransaction\<close>, \<^verbatim>\<open>enrichTransaction\<close>,
  \<^verbatim>\<open>decodeTransaction\<close>, \<^verbatim>\<open>storeTransaction\<close> and \<^verbatim>\<open>cleanupOldEntries\<close> of
  src/unnamed/part_002). The external processes (the forked chain, the chain node, the
  Redis cache) are states with one function per operation; a rejected promise or a throw
  is a value \<open>Inl\<close>. Console output is left out, but not what evaluating its arguments
  can throw. An \<^verbatim>\<open>async\<close> function whose invocations overlap is cut at its awaits.
\<close>

section \<open>JavaScript values used by the pipeline\<close>

text \<open>
  A value thrown inside a \<^verbatim>\<open>try\<close> block is either an \<^verbatim>\<open>Error\<close> instance
  carrying its message or some other value. The \<^verbatim>\<open>catch\<close> blocks of the program
  only distinguish these two cases (\<^verbatim>\<open>error instanceof Error ? error.message : ...\<close>).
\<close>

datatype thrown = Error string | NonError

text \<open>
  Decimal rendering, as \<^verbatim>\<open>toString()\<close> gives it for a non-negative integer and
  for a \<^verbatim>\<open>bigint\<close>, and as a template literal renders a small integer.
\<close>

definition digit_char :: "nat \<Rightarrow> char" where
  "digit_char d = ''0123456789'' ! d"

function number_toString :: "nat \<Rightarrow> string" where
  "number_toString n =
     (if n < 10 then [digit_char n]
      else number_toString (n div 10) @ [digit_char (n mod 10)])"
  by pat_completeness auto
termination
  by (relation "measure (\<lambda>n. n)") auto

declare number_toString.simps [simp del]

definition bigint_toString :: "int \<Rightarrow> string" where
  "bigint_toString i =
     (if i < 0 then CHR ''-'' # number_toString (nat (- i)) else number_toString (nat i))"

text \<open>
  \<^verbatim>\<open>BigInt(s)\<close> for a string \<open>s\<close> (ECMAScript StringToBigInt): surrounding white
  space is dropped, the empty string is \<open>0\<close>, a decimal literal may carry a sign, and the
  prefixes \<^verbatim>\<open>0x\<close>, \<^verbatim>\<open>0o\<close>, \<^verbatim>\<open>0b\<close> select another radix (without a sign).
  Anything else makes \<^verbatim>\<open>BigInt\<close> throw a SyntaxError, which is \<open>None\<close> here.
  Strings are byte strings in this model, so only the ASCII white space characters are
  recognised.
\<close>

definition is_white_space :: "char \<Rightarrow> bool" where
  "is_white_space c = (of_char c \<in> {9, 10, 11, 12, 13, 32 :: nat})"

definition trim :: "string \<Rightarrow> string" where
  "trim s = rev (dropWhile is_white_space (rev (dropWhile is_white_space s)))"

definition digit_value :: "nat \<Rightarrow> char \<Rightarrow> nat option" where
  "digit_value radix c =
     (let k = (of_char c :: nat);
          v = (if 48 \<le> k \<and> k \<le> 57 then Some (k - 48)
               else if 97 \<le> k \<and> k \<le> 102 then Some (k - 87)
               else if 65 \<le> k \<and> k \<le> 70 then Some (k - 55)
               else None)
      in case v of None \<Rightarrow> None | Some d \<Rightarrow> if d < radix then Some d else None)"

fun parse_digits :: "nat \<Rightarrow> nat \<Rightarrow> string \<Rightarrow> nat option" where
  "parse_digits radix acc [] = Some acc"
| "parse_digits radix acc (c # cs) =
     (case digit_value radix c of
        None \<Rightarrow> None
      | Some d \<Rightarrow> parse_digits radix (acc * radix + d) cs)"

definition parse_literal :: "nat \<Rightarrow> string \<Rightarrow> nat option" where
  "parse_literal radix ds = (if ds = [] then None else parse_digits radix 0 ds)"

definition js_BigInt :: "string \<Rightarrow> int option" where
  "js_BigInt s =
     (let t = trim s in
      if t = [] then Some 0
      else if take 2 t \<in> {''0x'', ''0X''} then map_option int (parse_literal 16 (drop 2 t))
      else if take 2 t \<in> {''0o'', ''0O''} then map_option int (parse_literal 8 (drop 2 t))
      else if take 2 t \<in> {''0b'', ''0B''} then map_option int (parse_literal 2 (drop 2 t))
      else if hd t = CHR ''-'' then map_option (\<lambda>n. - int n) (parse_literal 10 (tl t))
      else if hd t = CHR ''+'' then map_option int (parse_literal 10 (tl t))
      else map_option int (parse_literal 10 t))"

text \<open>
  \<^verbatim>\<open>Number(b)\<close> for a non-negative \<^verbatim>\<open>bigint\<close>: the nearest IEEE double, ties to
  the even significand, \<^verbatim>\<open>Infinity\<close> from \<open>2^1024\<close> on. Every double that occurs in
  the simulator is a non-negative integer or \<^verbatim>\<open>Infinity\<close>.
\<close>

datatype js_number = Finite nat | PosInfinity

function bit_length :: "nat \<Rightarrow> nat" where
  "bit_length n = (if n = 0 then 0 else Suc (bit_length (n div 2)))"
  by pat_completeness auto
termination
  by (relation "measure (\<lambda>n. n)") auto

declare bit_length.simps [simp del]

definition Number_of_bigint :: "nat \<Rightarrow> js_number" where
  "Number_of_bigint n =
     (if n < 2 ^ 53 then Finite n
      else
        let e = bit_length n - 53;
            q = n div 2 ^ e;
            r = n mod 2 ^ e;
            q' = (if 2 * r > 2 ^ e \<or> (2 * r = 2 ^ e \<and> odd q) then q + 1 else q);
            m = q' * 2 ^ e
        in if m < 2 ^ 1024 then Finite m else PosInfinity)"

text \<open>Addition of two such doubles: the exact sum, rounded.\<close>

fun js_add :: "js_number \<Rightarrow> js_number \<Rightarrow> js_number" where
  "js_add (Finite a) (Finite b) = Number_of_bigint (a + b)"
| "js_add _ _ = PosInfinity"

text \<open>
  The promise an \<^verbatim>\<open>async\<close> function returns ends rejected with the value thrown, or
  fulfilled with the value returned, or is never settled because the function awaits a
  promise that is never settled.
\<close>

datatype 'a promise = Rejected thrown | Fulfilled 'a | Pending

text \<open>
  \<^verbatim>\<open>ethers.formatEther(v)\<close> of ethers v6 formats through a signed fixed-point number
  of 512 bits and throws a NUMERIC\_FAULT (overflow) error for a value outside
  \<open>-2^511 \<le> v < 2^511\<close>. The program uses the string only in log lines, so only the
  throw is kept. (ethers appends the details of the error to the message; they are left
  out.)
\<close>

definition formatEther :: "int \<Rightarrow> thrown + unit" where
  "formatEther v =
     (if - (2 ^ 511) \<le> v \<and> v < 2 ^ 511 then Inr () else Inl (Error ''overflow''))"

section \<open>Bundle Simulator (bundle-simulator.ts)\<close>

subsection \<open>Data\<close>

text \<open>
  The fields of \<^verbatim>\<open>ethers.TransactionRequest\<close> that the simulator reads. A
  \<^verbatim>\<open>BigNumberish\<close> field is represented by the integer it denotes, \<open>None\<close> when
  the field is absent. Any other field of a request is passed through to the sandbox
  unchanged by the object spread and is not modelled.
\<close>

record transaction_request =
  req_to :: "string option"
  req_data :: "string option"
  req_value :: "int option"
  req_gasLimit :: "int option"

text \<open>What \<^verbatim>\<open>testWallet.sendTransaction\<close> receives:
  \<^verbatim>\<open>{...tx, nonce, gasLimit, gasPrice}\<close>.\<close>

record sent_transaction =
  request :: transaction_request
  sent_nonce :: nat
  sent_gasLimit :: int
  sent_gasPrice :: int

record transaction_receipt =
  status :: "nat option"
  receipt_gasUsed :: nat

record transaction_bundle =
  transactions :: "transaction_request list"
  expectedProfit :: string
  description :: string

record simulation_result =
  success :: bool
  gasUsed :: js_number
  profit :: string
  error :: "string option"
  executionTime :: int

text \<open>
  JSON values, for the parameters of the administrative RPC calls.
\<close>

datatype json = JNull | JBool bool | JNum int | JStr string
  | JArr "json list" | JObj "(string \<times> json) list"

text \<open>
  What becomes of a transaction that the forked chain has accepted: it is mined, which
  gives the next state of the chain and the receipt; or it is never mined; or the
  attempt to learn its fate fails (a replaced transaction, a failed request).
\<close>

datatype 'w fate = Mined 'w transaction_receipt | Unmined | Lost thrown

text \<open>
  The forked chain behind \<^verbatim>\<open>simulationProvider\<close> is an external process. It is a
  parameter of the model: a state \<open>'w\<close> and one function per operation the simulator
  uses. A request that rejects is \<open>Inl\<close> of the thrown value. Reads leave the state
  alone; \<^verbatim>\<open>sendTransaction\<close>, mining, \<^verbatim>\<open>send\<close> and the passing of time give
  the next state. \<^verbatim>\<open>getFeeData\<close> yields the \<^verbatim>\<open>gasPrice\<close> field of the fee
  data (\<^verbatim>\<open>null\<close> is \<open>None\<close>); \<^verbatim>\<open>mine\<close> is the fate of the transaction just
  sent; \<^verbatim>\<open>clock\<close> is \<^verbatim>\<open>Date.now()\<close>.
\<close>

record 'w sandbox =
  getBalance :: "'w \<Rightarrow> string \<Rightarrow> thrown + int"
  getTransactionCount :: "'w \<Rightarrow> string \<Rightarrow> thrown + nat"
  getFeeData :: "'w \<Rightarrow> thrown + int option"
  sendTransaction :: "'w \<Rightarrow> sent_transaction \<Rightarrow> thrown + 'w"
  mine :: "'w \<Rightarrow> 'w fate"
  send :: "'w \<Rightarrow> string \<Rightarrow> json list \<Rightarrow> thrown + 'w"
  sleep :: "nat \<Rightarrow> 'w \<Rightarrow> 'w"
  clock :: "'w \<Rightarrow> int"

text \<open>
  \<^verbatim>\<open>txResponse.wait()\<close> of ethers v6, called without arguments (one confirmation,
  no timeout): it resolves with the receipt of a mined transaction whose status is not 0,
  rejects with a CALL\_EXCEPTION error when the status is 0, rejects when the transaction
  was replaced or the request failed, and stays pending for as long as the transaction
  is not mined. With these arguments it does not resolve with \<^verbatim>\<open>null\<close>. (ethers
  appends the details of the error to the message; they are left out.)
\<close>

definition wait :: "'w fate \<Rightarrow> transaction_receipt option promise" where
  "wait f =
     (case f of
        Mined w receipt \<Rightarrow>
          if status receipt = Some 0 then Rejected (Error ''transaction execution reverted'')
          else Fulfilled (Some receipt)
      | Unmined \<Rightarrow> Pending
      | Lost e \<Rightarrow> Rejected e)"

text \<open>
  The local variables of \<^verbatim>\<open>simulateBundle\<close> that change in the loop, the state of
  the chain, and a record of what happened: every call of \<^verbatim>\<open>sendTransaction\<close>
  (with the chain state at which its fee data was read) and the receipt of every
  transaction that was mined, in order.
\<close>

record 'w run_state =
  world :: 'w
  totalGasUsed :: js_number
  totalGasCost :: int
  broadcasts :: "('w \<times> sent_transaction) list"
  receipts :: "transaction_receipt list"

subsection \<open>Constants\<close>

definition GAS_LIMIT :: int where
  "GAS_LIMIT = 500000"

text \<open>\<^verbatim>\<open>ethers.parseUnits("25", "gwei")\<close>\<close>

definition default_gasPrice :: int where
  "default_gasPrice = 25 * 10 ^ 9"

text \<open>The address of the default anvil private key used for the test wallet.\<close>

definition testWallet_address :: string where
  "testWallet_address = ''0xf39Fd6e51aad88F6F4ce6aB8827279cffFb92266''"

subsection \<open>simulateBundle\<close>

text \<open>\<^verbatim>\<open>feeData.gasPrice || ethers.parseUnits("25", "gwei")\<close>: \<^verbatim>\<open>null\<close> and
  \<^verbatim>\<open>0n\<close> are both falsy.\<close>

definition effective_gasPrice :: "int option \<Rightarrow> int" where
  "effective_gasPrice g =
     (case g of None \<Rightarrow> default_gasPrice
      | Some p \<Rightarrow> if p = 0 then default_gasPrice else p)"

text \<open>\<^verbatim>\<open>tx.gasLimit || MEV_CONFIG.GAS_LIMIT\<close>\<close>

definition effective_gasLimit :: "int option \<Rightarrow> int" where
  "effective_gasLimit g =
     (case g of None \<Rightarrow> GAS_LIMIT
      | Some l \<Rightarrow> if l = 0 then GAS_LIMIT else l)"

text \<open>How the loop over the transactions ends: it runs to its end, it is left by a
  throw, or it never gets past an \<^verbatim>\<open>await\<close>.\<close>

datatype loop_end = Completed | Threw thrown | Hung

text \<open>
  The loop over \<^verbatim>\<open>bundle.transactions\<close>, from index \<open>i\<close> on. The two checks on the
  receipt are the code's; the last step of an iteration is its log line, whose
  \<^verbatim>\<open>ethers.formatEther(gasCost)\<close> can throw.
\<close>

fun execute_transactions ::
  "'w sandbox \<Rightarrow> nat \<Rightarrow> nat \<Rightarrow> transaction_request list \<Rightarrow> 'w run_state
     \<Rightarrow> loop_end \<times> 'w run_state" where
  "execute_transactions sb currentNonce i [] s = (Completed, s)"
| "execute_transactions sb currentNonce i (tx # rest) s =
     (case getFeeData sb (world s) of
        Inl e \<Rightarrow> (Threw e, s)
      | Inr feeGasPrice \<Rightarrow>
          let gasPrice = effective_gasPrice feeGasPrice;
              stx = \<lparr>request = tx, sent_nonce = currentNonce + i,
                      sent_gasLimit = effective_gasLimit (req_gasLimit tx),
                      sent_gasPrice = gasPrice\<rparr>;
              s1 = s\<lparr>broadcasts := broadcasts s @ [(world s, stx)]\<rparr>
          in case sendTransaction sb (world s) stx of
               Inl e \<Rightarrow> (Threw e, s1)
             | Inr w1 \<Rightarrow>
                 let f = mine sb w1;
                     s2 = (case f of
                             Mined w2 mined_receipt \<Rightarrow>
                               s1\<lparr>world := w2, receipts := receipts s1 @ [mined_receipt]\<rparr>
                           | Unmined \<Rightarrow> s1\<lparr>world := w1\<rparr>
                           | Lost e \<Rightarrow> s1\<lparr>world := w1\<rparr>)
                 in case wait f of
                      Pending \<Rightarrow> (Hung, s2)
                    | Rejected e \<Rightarrow> (Threw e, s2)
                    | Fulfilled None \<Rightarrow>
                        (Threw (Error (''Transaction '' @ number_toString (i + 1)
                                         @ '' failed - no receipt'')), s2)
                    | Fulfilled (Some receipt) \<Rightarrow>
                        if status receipt = Some 0
                        then (Threw (Error (''Transaction '' @ number_toString (i + 1)
                                              @ '' reverted'')), s2)
                        else
                          (case Number_of_bigint (receipt_gasUsed receipt) of
                             PosInfinity \<Rightarrow>
                               (Threw (Error ''The number Infinity cannot be converted to a BigInt because it is not an integer''), s2)
                           | Finite gasUsed' \<Rightarrow>
                               let gasCost = int gasUsed' * gasPrice;
                                   s3 = s2\<lparr>totalGasUsed := js_add (totalGasUsed s2) (Finite gasUsed'),
                                           totalGasCost := totalGasCost s2 + gasCost\<rparr>
                               in case formatEther gasCost of
                                    Inl e \<Rightarrow> (Threw e, s3)
                                  | Inr logged \<Rightarrow>
                                      execute_transactions sb currentNonce (i + 1) rest s3))"

text \<open>Fast mode, the loop that subtracts the native value of each transaction:
  \<^verbatim>\<open>if (tx.value) calculatedProfit -= BigInt(tx.value)\<close>.\<close>

fun subtract_values :: "int \<Rightarrow> transaction_request list \<Rightarrow> int" where
  "subtract_values calculatedProfit [] = calculatedProfit"
| "subtract_values calculatedProfit (tx # rest) =
     subtract_values
       (case req_value tx of
          None \<Rightarrow> calculatedProfit
        | Some v \<Rightarrow> if v = 0 then calculatedProfit else calculatedProfit - v)
       rest"

text \<open>Fast mode: the profit, or the SyntaxError of \<^verbatim>\<open>BigInt(bundle.expectedProfit)\<close>,
  or what \<^verbatim>\<open>ethers.formatEther(profit)\<close> throws in the log line.\<close>

definition fast_profit :: "transaction_bundle \<Rightarrow> int \<Rightarrow> thrown + int" where
  "fast_profit bundle gasCost =
     (let calculatedProfit = subtract_values (0 - gasCost) (transactions bundle)
      in case (if expectedProfit bundle \<noteq> [] \<and> expectedProfit bundle \<noteq> ''0''
               then (case js_BigInt (expectedProfit bundle) of
                       None \<Rightarrow> Inl (Error (''Cannot convert '' @ expectedProfit bundle
                                              @ '' to a BigInt''))
                     | Some e \<Rightarrow> Inr (calculatedProfit + e))
               else Inr calculatedProfit) of
           Inl e \<Rightarrow> Inl e
         | Inr profit' \<Rightarrow>
             (case formatEther profit' of Inl e \<Rightarrow> Inl e | Inr logged \<Rightarrow> Inr profit'))"

text \<open>Precise mode: the pause, the second balance read, and the two log lines.\<close>

definition precise_profit ::
  "'w sandbox \<Rightarrow> int \<Rightarrow> 'w run_state \<Rightarrow> (thrown + int) \<times> 'w run_state" where
  "precise_profit sb initialBalance s =
     (let s' = s\<lparr>world := sleep sb 100 (world s)\<rparr>
      in case getBalance sb (world s') testWallet_address of
           Inl e \<Rightarrow> (Inl e, s')
         | Inr finalBalance \<Rightarrow>
             let profit' = finalBalance - initialBalance
             in (case formatEther finalBalance of
                   Inl e \<Rightarrow> (Inl e, s')
                 | Inr logged \<Rightarrow>
                     (case formatEther profit' of
                        Inl e \<Rightarrow> (Inl e, s')
                      | Inr logged' \<Rightarrow> (Inr profit', s'))))"

text \<open>
  The body of the \<^verbatim>\<open>try\<close> block: it yields the profit, or throws, or stays pending;
  with it the state reached. The calls of \<^verbatim>\<open>ethers.formatEther\<close> in the log lines
  are part of it, since a throw of theirs is caught like any other.
\<close>

definition simulate_try ::
  "'w sandbox \<Rightarrow> transaction_bundle \<Rightarrow> bool \<Rightarrow> 'w run_state \<Rightarrow> int promise \<times> 'w run_state" where
  "simulate_try sb bundle fastMode s0 =
     (case getBalance sb (world s0) testWallet_address of
        Inl e \<Rightarrow> (Rejected e, s0)
      | Inr initialBalance \<Rightarrow>
          (case formatEther initialBalance of
             Inl e \<Rightarrow> (Rejected e, s0)
           | Inr logged \<Rightarrow>
               (case getTransactionCount sb (world s0) testWallet_address of
                  Inl e \<Rightarrow> (Rejected e, s0)
                | Inr currentNonce \<Rightarrow>
                    (case execute_transactions sb currentNonce 0 (transactions bundle) s0 of
                       (Hung, s) \<Rightarrow> (Pending, s)
                     | (Threw e, s) \<Rightarrow> (Rejected e, s)
                     | (Completed, s) \<Rightarrow>
                         (case (if fastMode then (fast_profit bundle (totalGasCost s), s)
                                else precise_profit sb initialBalance s) of
                            (Inl e, s') \<Rightarrow> (Rejected e, s')
                          | (Inr profit', s') \<Rightarrow>
                              (case formatEther (totalGasCost s') of
                                 Inl e \<Rightarrow> (Rejected e, s')
                               | Inr logged' \<Rightarrow> (Fulfilled profit', s')))))))"

text \<open>
  \<^verbatim>\<open>simulateBundle(bundle, fastMode)\<close>. The first argument is the field
  \<^verbatim>\<open>this.simulationProvider\<close>, \<open>None\<close> when it is \<^verbatim>\<open>null\<close>. The result is the
  promise the call returns (rejected, fulfilled with the Simulation Result, or never
  settled) and the state reached.
\<close>

definition simulateBundle ::
  "'w sandbox option \<Rightarrow> 'w \<Rightarrow> transaction_bundle \<Rightarrow> bool
     \<Rightarrow> simulation_result promise \<times> 'w run_state" where
  "simulateBundle simulationProvider w bundle fastMode =
     (let s0 = \<lparr>world = w, totalGasUsed = Finite 0, totalGasCost = 0,
                 broadcasts = [], receipts = []\<rparr>
      in case simulationProvider of
           None \<Rightarrow> (Rejected (Error ''Simulation provider not initialized''), s0)
         | Some sb \<Rightarrow>
             let startTime = clock sb w
             in (case simulate_try sb bundle fastMode s0 of
                   (Fulfilled profit', s) \<Rightarrow>
                     (Fulfilled \<lparr>success = True, gasUsed = totalGasUsed s,
                                 profit = bigint_toString profit', error = None,
                                 executionTime = clock sb (world s) - startTime\<rparr>, s)
                 | (Rejected e, s) \<Rightarrow>
                     (Fulfilled \<lparr>success = False, gasUsed = Finite 0, profit = ''0'',
                                 error = Some (case e of Error m \<Rightarrow> m
                                               | NonError \<Rightarrow> ''Unknown error''),
                                 executionTime = clock sb (world s) - startTime\<rparr>, s)
                 | (Pending, s) \<Rightarrow> (Pending, s)))"

subsection \<open>resetFork\<close>

text \<open>
  The simulator object: the fields \<^verbatim>\<open>simulationProvider\<close> and
  \<^verbatim>\<open>forkBlockNumber\<close>, the state of the sandbox behind the provider, and the
  record of every \<^verbatim>\<open>simulationProvider.send(method, params)\<close> made so far.
\<close>

record 'w simulator =
  simulationProvider :: "'w sandbox option"
  forkBlockNumber :: "int option"
  sandbox_state :: 'w
  rpc_calls :: "(string \<times> json list) list"

text \<open>\<^verbatim>\<open>CURRENT_NETWORK.rpcUrl\<close>\<close>

definition rpcUrl :: string where
  "rpcUrl = ''http://127.0.0.1:9650/ext/bc/C/rpc''"

text \<open>\<^verbatim>\<open>ethers.parseEther("1000000")\<close>, the balance the sandbox is launched with
  (\<^verbatim>\<open>--balance 1000000\<close>).\<close>

definition test_balance :: int where
  "test_balance = 1000000 * 10 ^ 18"

definition default_account :: string where
  "default_account = ''0xf39Fd6e51aad88F6F4ce6aB8827279cffFb92266''"

text \<open>
  \<^verbatim>\<open>resetFork\<close> of bundle-simulator.ts. The first argument is the answer of
  \<^verbatim>\<open>mainProvider.getBlockNumber()\<close> on the real chain.
\<close>

definition resetFork ::
  "thrown + int \<Rightarrow> 'w simulator \<Rightarrow> (thrown + unit) \<times> 'w simulator" where
  "resetFork main_getBlockNumber sim =
     (case simulationProvider sim of
        None \<Rightarrow> (Inl (Error ''Simulation provider not initialized''), sim)
      | Some sb \<Rightarrow>
          (case main_getBlockNumber of
             Inl e \<Rightarrow> (Inl e, sim)
           | Inr latestBlock \<Rightarrow>
               let params = [JObj [(''forking'',
                                JObj [(''jsonRpcUrl'', JStr rpcUrl),
                                      (''blockNumber'', JNum (latestBlock - 2))])]];
                   sim1 = sim\<lparr>rpc_calls := rpc_calls sim @ [(''anvil_reset'', params)]\<rparr>
               in case send sb (sandbox_state sim) ''anvil_reset'' params of
                    Inl e \<Rightarrow> (Inl e, sim1)
                  | Inr w1 \<Rightarrow>
                      let sim2 = sim1\<lparr>sandbox_state := w1,
                                       forkBlockNumber := Some (latestBlock - 2)\<rparr>;
                          params2 = [JStr default_account, JStr (bigint_toString test_balance)];
                          sim3 = sim2\<lparr>rpc_calls := rpc_calls sim2 @ [(''anvil_setBalance'', params2)]\<rparr>
                      in case send sb w1 ''anvil_setBalance'' params2 of
                           Inl e \<Rightarrow> (Inl e, sim3)
                         | Inr w2 \<Rightarrow> (Inr (), sim3\<lparr>sandbox_state := w2\<rparr>)))"

text \<open>
  \<^verbatim>\<open>resetFork\<close> of the second copy of the simulator class (src/unnamed/part_003).
\<close>

definition resetFork_part_003 ::
  "thrown + int \<Rightarrow> 'w simulator \<Rightarrow> (thrown + unit) \<times> 'w simulator" where
  "resetFork_part_003 main_getBlockNumber sim =
     (case simulationProvider sim of
        None \<Rightarrow> (Inl (Error ''Simulation provider not initialized''), sim)
      | Some sb \<Rightarrow>
          (case main_getBlockNumber of
             Inl e \<Rightarrow> (Inl e, sim)
           | Inr latestBlock \<Rightarrow>
               let params = [JStr rpcUrl, JNum (latestBlock - 2)];
                   sim1 = sim\<lparr>rpc_calls := rpc_calls sim @ [(''anvil_reset'', params)]\<rparr>
               in case send sb (sandbox_state sim) ''anvil_reset'' params of
                    Inl e \<Rightarrow> (Inl e, sim1)
                  | Inr w1 \<Rightarrow>
                      (Inr (), sim1\<lparr>sandbox_state := w1,
                                     forkBlockNumber := Some (latestBlock - 2)\<rparr>)))"

text \<open>
  A sandbox for running the model on concrete inputs. Its state is the list of the
  receipts with which the coming transactions will be mined; once the list is used up, a
  transaction that is sent is accepted and never mined. The wallet holds the launch
  balance, has sent seven transactions, and the fee data report the gas price
  \<open>feePrice\<close>.
\<close>

definition scripted_sandbox :: "int option \<Rightarrow> (transaction_receipt list) sandbox" where
  "scripted_sandbox feePrice =
     \<lparr>getBalance = (\<lambda>w a. Inr test_balance),
      getTransactionCount = (\<lambda>w a. Inr 7),
      getFeeData = (\<lambda>w. Inr feePrice),
      sendTransaction = (\<lambda>w t. Inr w),
      mine = (\<lambda>w. case w of [] \<Rightarrow> Unmined | r # rs \<Rightarrow> Mined rs r),
      send = (\<lambda>w m ps. Inr w),
      sleep = (\<lambda>ms w. w),
      clock = (\<lambda>w. 0)\<rparr>"

section \<open>Mempool Ingestor (MempoolListener, src/unnamed/part_002)\<close>

subsection \<open>Decoded calldata\<close>

text \<open>
  The values ethers v6 puts into \<^verbatim>\<open>decoded.args\<close> for the router ABI: a
  \<^verbatim>\<open>bigint\<close> for \<^verbatim>\<open>uint\<close>, a string for \<^verbatim>\<open>address\<close>, an array for
  \<^verbatim>\<open>address[]\<close>. \<open>None\<close> of type \<open>js_val option\<close> is \<^verbatim>\<open>undefined\<close>.
\<close>

datatype js_val = VBigInt int | VString string | VArray "js_val list"

fun join_comma :: "string list \<Rightarrow> string" where
  "join_comma [] = []"
| "join_comma [s] = s"
| "join_comma (s # ss) = s @ '','' @ join_comma ss"

text \<open>\<^verbatim>\<open>v.toString()\<close>\<close>

fun js_toString :: "js_val \<Rightarrow> string" where
  "js_toString (VBigInt n) = bigint_toString n"
| "js_toString (VString s) = s"
| "js_toString (VArray xs) = join_comma (map js_toString xs)"

text \<open>
  ethers hands out \<^verbatim>\<open>decoded.args\<close>, and every array inside it, as a
  \<^verbatim>\<open>Result\<close>: reading a numeric index that is not below its length throws a
  RangeError.
\<close>

definition result_index :: "js_val list \<Rightarrow> nat \<Rightarrow> thrown + js_val" where
  "result_index xs i = (if i < length xs then Inr (xs ! i) else Inl (Error ''out of result range''))"

text \<open>\<^verbatim>\<open>v[i]\<close> for a value \<open>v\<close> that is not \<^verbatim>\<open>undefined\<close>: an array is a
  \<^verbatim>\<open>Result\<close>, a string yields a character or \<^verbatim>\<open>undefined\<close>, a \<^verbatim>\<open>bigint\<close>
  has no indexed properties.\<close>

fun js_index :: "js_val \<Rightarrow> nat \<Rightarrow> thrown + js_val option" where
  "js_index (VArray xs) i = (case result_index xs i of Inl e \<Rightarrow> Inl e | Inr v \<Rightarrow> Inr (Some v))"
| "js_index (VString s) i = Inr (if i < length s then Some (VString [s ! i]) else None)"
| "js_index (VBigInt n) i = Inr None"

text \<open>\<^verbatim>\<open>v[v.length - 1]\<close>, read after \<^verbatim>\<open>v[0]\<close> was read without a throw, so
  that an array \<open>v\<close> is not empty here. A \<^verbatim>\<open>bigint\<close> has no length.\<close>

fun js_last :: "js_val \<Rightarrow> js_val option" where
  "js_last (VArray xs) = (if xs = [] then None else Some (last xs))"
| "js_last (VString s) = (if s = [] then None else Some (VString [last s]))"
| "js_last (VBigInt n) = None"

text \<open>\<^verbatim>\<open>JSON.stringify\<close> throws a TypeError on a \<^verbatim>\<open>bigint\<close>, at any depth.\<close>

fun contains_bigint :: "js_val \<Rightarrow> bool" where
  "contains_bigint (VBigInt n) = True"
| "contains_bigint (VString s) = False"
| "contains_bigint (VArray xs) = (\<exists>x \<in> set xs. contains_bigint x)"

text \<open>\<^verbatim>\<open>s.includes(p)\<close> and \<^verbatim>\<open>s.toLowerCase()\<close> (ASCII).\<close>

fun string_includes :: "string \<Rightarrow> string \<Rightarrow> bool" where
  "string_includes [] p = (p = [])"
| "string_includes (c # cs) p = (take (length p) (c # cs) = p \<or> string_includes cs p)"

definition lower_char :: "char \<Rightarrow> char" where
  "lower_char c =
     (case map_of (zip ''ABCDEFGHIJKLMNOPQRSTUVWXYZ'' ''abcdefghijklmnopqrstuvwxyz'') c of
        None \<Rightarrow> c
      | Some l \<Rightarrow> l)"

definition toLowerCase :: "string \<Rightarrow> string" where
  "toLowerCase s = map lower_char s"

text \<open>
  \<^verbatim>\<open>ethers.Interface\<close> is library code and a parameter of the model.
  \<^verbatim>\<open>parseTransaction\<close> yields the description of the call (\<open>None\<close> for
  \<^verbatim>\<open>null\<close>, when no function of the ABI matches) or throws;
  \<^verbatim>\<open>encodeFunctionData\<close> is the encoder of the same interface.
\<close>

record transaction_description =
  td_name :: string
  td_args :: "js_val list"

record interface =
  parseTransaction :: "string \<Rightarrow> thrown + transaction_description option"
  encodeFunctionData :: "string \<Rightarrow> js_val list \<Rightarrow> string"

record decoded_call =
  contractAddress :: string
  functionName :: string
  args :: "js_val list"
  isSwap :: bool
  tokenIn :: "js_val option"
  tokenOut :: "js_val option"
  amountIn :: "string option"
  amountOut :: "string option"
  path :: "js_val option"

definition knownRouters :: "string list" where
  "knownRouters =
     [''0x60aE616a2155Ee3d9A68541Ba4544862310933d4'',
      ''0xE54Ca86531e17Ef3616d22Ca28b0D458b6C89106'',
      ''0x1b02dA8Cb0d097eB8D57A175b88c7D8b47997506'']"

text \<open>\<^verbatim>\<open>this.dexInterfaces[address]\<close> after \<^verbatim>\<open>initializeDexInterfaces\<close>: every
  known router, lower-cased, maps to the one router interface.\<close>

definition dexInterfaces :: "interface \<Rightarrow> string \<Rightarrow> interface option" where
  "dexInterfaces routerInterface address =
     (if address \<in> set (map toLowerCase knownRouters) then Some routerInterface else None)"

text \<open>
  The extraction of the swap details for one of the two function names that have them:
  \<^verbatim>\<open>decoded.args[0].toString()\<close>, \<^verbatim>\<open>decoded.args[2]\<close>,
  \<^verbatim>\<open>decoded.args[2][0]\<close> and
  \<^verbatim>\<open>decoded.args[2][decoded.args[2].length - 1]\<close>, in this order. \<open>None\<close> is a
  throw of one of them, which \<^verbatim>\<open>decodeTransaction\<close> catches.
\<close>

definition swap_details :: "js_val list \<Rightarrow> (string \<times> js_val \<times> js_val option \<times> js_val option) option" where
  "swap_details as =
     (case result_index as 0 of
        Inl e \<Rightarrow> None
      | Inr a0 \<Rightarrow>
          (case result_index as 2 of
             Inl e \<Rightarrow> None
           | Inr a2 \<Rightarrow>
               (case js_index a2 0 of
                  Inl e \<Rightarrow> None
                | Inr t_in \<Rightarrow> Some (js_toString a0, a2, t_in, js_last a2))))"

text \<open>\<^verbatim>\<open>decodeTransaction\<close>; \<open>None\<close> is \<^verbatim>\<open>undefined\<close>.\<close>

definition decodeTransaction :: "interface \<Rightarrow> string \<Rightarrow> string \<Rightarrow> decoded_call option" where
  "decodeTransaction routerInterface address calldata =
     (case dexInterfaces routerInterface (toLowerCase address) of
        None \<Rightarrow> None
      | Some iface \<Rightarrow>
          (case parseTransaction iface calldata of
             Inl e \<Rightarrow> None
           | Inr None \<Rightarrow> None
           | Inr (Some decoded) \<Rightarrow>
               let decodedCall = \<lparr>contractAddress = address, functionName = td_name decoded,
                                    args = td_args decoded, isSwap = False,
                                    tokenIn = None, tokenOut = None, amountIn = None,
                                    amountOut = None, path = None\<rparr>
               in if string_includes (td_name decoded) ''swap'' then
                    if td_name decoded = ''swapExactTokensForTokens'' then
                      (case swap_details (td_args decoded) of
                         None \<Rightarrow> None
                       | Some (amount, p, t_in, t_out) \<Rightarrow>
                           Some (decodedCall\<lparr>isSwap := True, amountIn := Some amount,
                                   path := Some p, tokenIn := t_in, tokenOut := t_out\<rparr>))
                    else if td_name decoded = ''swapTokensForExactTokens'' then
                      (case swap_details (td_args decoded) of
                         None \<Rightarrow> None
                       | Some (amount, p, t_in, t_out) \<Rightarrow>
                           Some (decodedCall\<lparr>isSwap := True, amountOut := Some amount,
                                   path := Some p, tokenIn := t_in, tokenOut := t_out\<rparr>))
                    else Some (decodedCall\<lparr>isSwap := True\<rparr>)
                  else Some decodedCall))"

subsection \<open>Enrichment\<close>

text \<open>The fields of \<^verbatim>\<open>ethers.TransactionResponse\<close> that are read.\<close>

record transaction_response =
  resp_hash :: string
  resp_from :: string
  resp_to :: "string option"
  resp_value :: int
  resp_gasLimit :: int
  resp_gasPrice :: "int option"
  resp_maxFeePerGas :: "int option"
  resp_maxPriorityFeePerGas :: "int option"
  resp_nonce :: nat
  resp_data :: string
  resp_blockNumber :: "nat option"

record enriched_transaction =
  tx_hash :: string
  tx_from :: string
  tx_to :: "string option"
  tx_value :: string
  tx_gasLimit :: string
  tx_gasPrice :: string
  tx_maxFeePerGas :: "string option"
  tx_maxPriorityFeePerGas :: "string option"
  tx_nonce :: nat
  tx_data :: string
  tx_timestamp :: int
  tx_blockNumber :: "nat option"
  tx_decodedCall :: "decoded_call option"

text \<open>\<^verbatim>\<open>enrichTransaction\<close>; \<open>now\<close> is \<^verbatim>\<open>Date.now()\<close>.\<close>

definition enrichTransaction :: "interface \<Rightarrow> int \<Rightarrow> transaction_response \<Rightarrow> enriched_transaction" where
  "enrichTransaction routerInterface now tx =
     \<lparr>tx_hash = resp_hash tx,
      tx_from = resp_from tx,
      tx_to = resp_to tx,
      tx_value = bigint_toString (resp_value tx),
      tx_gasLimit = bigint_toString (resp_gasLimit tx),
      tx_gasPrice = (case resp_gasPrice tx of None \<Rightarrow> ''0'' | Some g \<Rightarrow> bigint_toString g),
      tx_maxFeePerGas = map_option bigint_toString (resp_maxFeePerGas tx),
      tx_maxPriorityFeePerGas = map_option bigint_toString (resp_maxPriorityFeePerGas tx),
      tx_nonce = resp_nonce tx,
      tx_data = resp_data tx,
      tx_timestamp = now,
      tx_blockNumber = (case resp_blockNumber tx of None \<Rightarrow> None
                        | Some b \<Rightarrow> if b = 0 then None else Some b),
      tx_decodedCall =
        (case resp_to tx of
           None \<Rightarrow> None
         | Some to_address \<Rightarrow>
             if to_address \<noteq> [] \<and> dexInterfaces routerInterface (toLowerCase to_address) \<noteq> None
             then decodeTransaction routerInterface to_address (resp_data tx)
             else None)\<rparr>"

subsection \<open>The cache\<close>

text \<open>
  The Redis server is an external process, modelled by its keyspace: an association list
  from keys to entries. An entry is a string value or a list, with the remaining time to
  live in seconds when an expiry is set. The string values this program writes are
  \<^verbatim>\<open>JSON.stringify(tx)\<close>; the model keeps the transaction the text denotes.
  \<open>healthy_calls\<close> is the number of commands the connection will still serve before it
  fails (\<open>None\<close>: it does not fail); a command sent after that rejects. \<open>served\<close> records
  the commands served, in order.
\<close>

datatype redis_value = RString enriched_transaction | RList "string list"

record redis_entry =
  content :: redis_value
  expiry :: "nat option"

datatype redis_command =
  SETEX string nat | LPUSH string string | LTRIM string nat nat
  | KEYS string | TTL string | DEL string

record redis =
  entries :: "(string \<times> redis_entry) list"
  healthy_calls :: "nat option"
  served :: "redis_command list"

definition serve :: "redis_command \<Rightarrow> redis \<Rightarrow> redis option" where
  "serve c r =
     (case healthy_calls r of
        None \<Rightarrow> Some (r\<lparr>served := served r @ [c]\<rparr>)
      | Some n \<Rightarrow>
          if n = 0 then None
          else Some (r\<lparr>healthy_calls := Some (n - 1), served := served r @ [c]\<rparr>))"

definition client_closed :: thrown where
  "client_closed = Error ''The client is closed''"

definition wrong_type :: thrown where
  "wrong_type = Error ''WRONGTYPE Operation against a key holding the wrong kind of value''"

definition setEx :: "string \<Rightarrow> nat \<Rightarrow> enriched_transaction \<Rightarrow> redis \<Rightarrow> (thrown + unit) \<times> redis" where
  "setEx k seconds v r =
     (case serve (SETEX k seconds) r of
        None \<Rightarrow> (Inl client_closed, r)
      | Some r' \<Rightarrow>
          (Inr (), r'\<lparr>entries := AList.update k \<lparr>content = RString v, expiry = Some seconds\<rparr>
                                    (entries r')\<rparr>))"

definition lPush :: "string \<Rightarrow> string \<Rightarrow> redis \<Rightarrow> (thrown + nat) \<times> redis" where
  "lPush k v r =
     (case serve (LPUSH k v) r of
        None \<Rightarrow> (Inl client_closed, r)
      | Some r' \<Rightarrow>
          (case map_of (entries r') k of
             None \<Rightarrow>
               (Inr 1, r'\<lparr>entries := AList.update k \<lparr>content = RList [v], expiry = None\<rparr>
                                        (entries r')\<rparr>)
           | Some en \<Rightarrow>
               (case content en of
                  RString s \<Rightarrow> (Inl wrong_type, r')
                | RList xs \<Rightarrow>
                    (Inr (Suc (length xs)),
                     r'\<lparr>entries := AList.update k (en\<lparr>content := RList (v # xs)\<rparr>)
                                      (entries r')\<rparr>))))"

text \<open>\<^verbatim>\<open>LTRIM key start stop\<close> for non-negative indices; a list trimmed to nothing
  is removed.\<close>

definition lTrim :: "string \<Rightarrow> nat \<Rightarrow> nat \<Rightarrow> redis \<Rightarrow> (thrown + unit) \<times> redis" where
  "lTrim k start stop r =
     (case serve (LTRIM k start stop) r of
        None \<Rightarrow> (Inl client_closed, r)
      | Some r' \<Rightarrow>
          (case map_of (entries r') k of
             None \<Rightarrow> (Inr (), r')
           | Some en \<Rightarrow>
               (case content en of
                  RString s \<Rightarrow> (Inl wrong_type, r')
                | RList xs \<Rightarrow>
                    let kept = take (Suc stop - start) (drop start xs)
                    in if kept = [] then (Inr (), r'\<lparr>entries := AList.delete k (entries r')\<rparr>)
                       else (Inr (), r'\<lparr>entries := AList.update k (en\<lparr>content := RList kept\<rparr>)
                                                       (entries r')\<rparr>))))"





definition del :: "string \<Rightarrow> redis \<Rightarrow> (thrown + nat) \<times> redis" where
  "del k r =
     (case serve (DEL k) r of
        None \<Rightarrow> (Inl client_closed, r)
      | Some r' \<Rightarrow>
          (Inr (if map_of (entries r') k = None then 0 else 1),
           r'\<lparr>entries := AList.delete k (entries r')\<rparr>))"

subsection \<open>storeTransaction and cleanupOldEntries\<close>

definition REDIS_KEY_PREFIX :: string where
  "REDIS_KEY_PREFIX = ''mev:''"

definition MEMPOOL_TTL :: nat where
  "MEMPOOL_TTL = 300"

definition decoded_call_has_bigint :: "decoded_call \<Rightarrow> bool" where
  "decoded_call_has_bigint d =
     ((\<exists>a \<in> set (args d). contains_bigint a)
      \<or> (case tokenIn d of None \<Rightarrow> False | Some v \<Rightarrow> contains_bigint v)
      \<or> (case tokenOut d of None \<Rightarrow> False | Some v \<Rightarrow> contains_bigint v)
      \<or> (case path d of None \<Rightarrow> False | Some v \<Rightarrow> contains_bigint v))"

text \<open>
  \<^verbatim>\<open>JSON.stringify(tx)\<close>. Every field of an enriched transaction is a string, a
  number or absent, except the values inside the decoded call: \<^verbatim>\<open>args\<close> is the
  array \<^verbatim>\<open>decoded.args\<close> as ethers returned it. On a \<^verbatim>\<open>bigint\<close>
  \<^verbatim>\<open>JSON.stringify\<close> throws a TypeError. (The reserve cache of the arbitrage
  detector turns its \<^verbatim>\<open>bigint\<close> fields into strings before it serializes; this
  function does not.) The text written is represented by the transaction it denotes.
\<close>

definition JSON_stringify :: "enriched_transaction \<Rightarrow> thrown + enriched_transaction" where
  "JSON_stringify tx =
     (case tx_decodedCall tx of
        None \<Rightarrow> Inr tx
      | Some d \<Rightarrow>
          if decoded_call_has_bigint d then Inl (Error ''Do not know how to serialize a BigInt'')
          else Inr tx)"

definition is_swap :: "enriched_transaction \<Rightarrow> bool" where
  "is_swap tx = (case tx_decodedCall tx of None \<Rightarrow> False | Some d \<Rightarrow> isSwap d)"

text \<open>
  \<^verbatim>\<open>storeTransaction\<close>. Every throw inside is caught by its own \<^verbatim>\<open>catch\<close>, which
  logs and returns: the result is the cache as the commands served so far left it.
\<close>

definition storeTransaction :: "enriched_transaction \<Rightarrow> redis \<Rightarrow> redis" where
  "storeTransaction tx r =
     (let key = REDIS_KEY_PREFIX @ ''tx:'' @ tx_hash tx in
      case JSON_stringify tx of
        Inl e \<Rightarrow> r
      | Inr doc \<Rightarrow>
          (case setEx key MEMPOOL_TTL doc r of
             (Inl e, r1) \<Rightarrow> r1
           | (Inr u, r1) \<Rightarrow>
               if is_swap tx then
                 let swapKey = REDIS_KEY_PREFIX @ ''swaps:'' @ tx_hash tx in
                 (case JSON_stringify tx of
                    Inl e \<Rightarrow> r1
                  | Inr doc2 \<Rightarrow>
                      (case setEx swapKey MEMPOOL_TTL doc2 r1 of
                         (Inl e, r2) \<Rightarrow> r2
                       | (Inr u2, r2) \<Rightarrow>
                           (case lPush (REDIS_KEY_PREFIX @ ''swap_queue'') (tx_hash tx) r2 of
                              (Inl e, r3) \<Rightarrow> r3
                            | (Inr n, r3) \<Rightarrow>
                                (case lTrim (REDIS_KEY_PREFIX @ ''swap_queue'') 0 999 r3 of
                                   (Inl e, r4) \<Rightarrow> r4
                                 | (Inr u4, r4) \<Rightarrow> r4))))
               else r1))"



subsection \<open>storeTransaction, cut at its awaits\<close>

text \<open>
  \<^verbatim>\<open>storeTransaction\<close> awaits the reply of every command it sends, and while it waits
  other invocations of the handler run. The cache serves the commands of the one
  connection in the order in which they were sent, so a command takes effect on the
  keyspace when it is sent; its reply is kept until the function is resumed. A
  \<open>store_wait\<close> names the command whose reply is awaited and holds that reply.
\<close>

datatype store_wait =
  SetTx "thrown + unit" | SetSwap "thrown + unit" | Push "thrown + nat" | Trim "thrown + unit"

text \<open>The call of \<^verbatim>\<open>storeTransaction\<close> up to its first \<^verbatim>\<open>await\<close>; \<open>None\<close> when it
  has returned.\<close>

definition storeTransaction_call ::
  "enriched_transaction \<Rightarrow> redis \<Rightarrow> store_wait option \<times> redis" where
  "storeTransaction_call tx r =
     (let key = REDIS_KEY_PREFIX @ ''tx:'' @ tx_hash tx in
      case JSON_stringify tx of
        Inl e \<Rightarrow> (None, r)
      | Inr doc \<Rightarrow>
          (case setEx key MEMPOOL_TTL doc r of (reply, r1) \<Rightarrow> (Some (SetTx reply), r1)))"

text \<open>\<^verbatim>\<open>storeTransaction\<close> from the reply it was waiting for up to its next
  \<^verbatim>\<open>await\<close> or its return.\<close>

fun storeTransaction_resumed ::
  "enriched_transaction \<Rightarrow> store_wait \<Rightarrow> redis \<Rightarrow> store_wait option \<times> redis" where
  "storeTransaction_resumed tx (SetTx (Inl e)) r = (None, r)"
| "storeTransaction_resumed tx (SetTx (Inr u)) r =
     (if is_swap tx then
        let swapKey = REDIS_KEY_PREFIX @ ''swaps:'' @ tx_hash tx in
        (case JSON_stringify tx of
           Inl e \<Rightarrow> (None, r)
         | Inr doc2 \<Rightarrow>
             (case setEx swapKey MEMPOOL_TTL doc2 r of
                (reply, r2) \<Rightarrow> (Some (SetSwap reply), r2)))
      else (None, r))"
| "storeTransaction_resumed tx (SetSwap (Inl e)) r = (None, r)"
| "storeTransaction_resumed tx (SetSwap (Inr u)) r =
     (case lPush (REDIS_KEY_PREFIX @ ''swap_queue'') (tx_hash tx) r of
        (reply, r3) \<Rightarrow> (Some (Push reply), r3))"
| "storeTransaction_resumed tx (Push (Inl e)) r = (None, r)"
| "storeTransaction_resumed tx (Push (Inr n)) r =
     (case lTrim (REDIS_KEY_PREFIX @ ''swap_queue'') 0 999 r of
        (reply, r4) \<Rightarrow> (Some (Trim reply), r4))"
| "storeTransaction_resumed tx (Trim reply) r = (None, r)"

subsection \<open>handlePendingTransaction\<close>

text \<open>
  \<^verbatim>\<open>handlePendingTransaction\<close> is an \<^verbatim>\<open>async\<close> function that is called once for
  every pending hash the node announces. An invocation runs until its next \<^verbatim>\<open>await\<close>
  and is resumed later; between the two, other invocations are started and resumed. The
  phase of an invocation says where it is: waiting for
  \<^verbatim>\<open>provider.getTransaction\<close> (line 131), for \<^verbatim>\<open>enrichTransaction\<close> (line 140,
  with the enriched transaction that call has computed), for \<^verbatim>\<open>storeTransaction\<close>
  (line 143, with what that call is itself waiting for, \<open>None\<close> when it has returned),
  or returned: at line 125 because the hash was in the dedup set, or anywhere else.
\<close>

datatype phase =
    AwaitingTransaction
  | AwaitingEnriched enriched_transaction
  | AwaitingStored enriched_transaction "store_wait option"
  | ReturnedSeen
  | Returned

text \<open>
  The listener: the dedup set \<^verbatim>\<open>seenTxs\<close> (a JavaScript \<^verbatim>\<open>Set\<close>, kept as the
  list of its members in insertion order), the cache behind \<^verbatim>\<open>redisClient\<close>, and
  every invocation of the handler so far, in the order of the calls, with its hash and
  its phase. Two records are kept besides: the hashes passed to
  \<^verbatim>\<open>provider.getTransaction\<close>, and how often \<^verbatim>\<open>seenTxs.clear()\<close> has run.
\<close>

record listener =
  seenTxs :: "string list"
  redisClient :: redis
  invocations :: "(string \<times> phase) list"
  fetched :: "string list"
  clears :: nat

definition set_add :: "string \<Rightarrow> string list \<Rightarrow> string list" where
  "set_add x xs = (if x \<in> set xs then xs else xs @ [x])"

text \<open>The call \<^verbatim>\<open>handlePendingTransaction(txHash)\<close>, up to the \<^verbatim>\<open>await\<close> of line
  131: the request for the transaction has been sent.\<close>

definition handlePendingTransaction :: "string \<Rightarrow> listener \<Rightarrow> listener" where
  "handlePendingTransaction txHash l =
     (if txHash \<in> set (seenTxs l)
      then l\<lparr>invocations := invocations l @ [(txHash, ReturnedSeen)]\<rparr>
      else l\<lparr>fetched := fetched l @ [txHash],
              invocations := invocations l @ [(txHash, AwaitingTransaction)]\<rparr>)"

text \<open>
  Invocation \<open>i\<close> is resumed with the answer of the chain node (a rejection is caught by
  the handler's \<^verbatim>\<open>catch\<close>): lines 132 to 140. \<^verbatim>\<open>enrichTransaction\<close> has no
  \<^verbatim>\<open>await\<close> inside, so it runs to its end when it is called; \<open>now\<close> is
  \<^verbatim>\<open>Date.now()\<close>.
\<close>

definition handlePendingTransaction_fetched ::
  "interface \<Rightarrow> nat \<Rightarrow> thrown + transaction_response option \<Rightarrow> int \<Rightarrow> listener \<Rightarrow> listener" where
  "handlePendingTransaction_fetched routerInterface i answer now l =
     (if i < length (invocations l) \<and> snd (invocations l ! i) = AwaitingTransaction then
        let txHash = fst (invocations l ! i) in
        case answer of
          Inl e \<Rightarrow> l\<lparr>invocations := (invocations l)[i := (txHash, Returned)]\<rparr>
        | Inr None \<Rightarrow> l\<lparr>invocations := (invocations l)[i := (txHash, Returned)]\<rparr>
        | Inr (Some tx) \<Rightarrow>
            l\<lparr>seenTxs := set_add txHash (seenTxs l),
              invocations := (invocations l)
                 [i := (txHash, AwaitingEnriched (enrichTransaction routerInterface now tx))]\<rparr>
      else l)"

text \<open>
  Invocation \<open>i\<close> is resumed after the \<^verbatim>\<open>await\<close> of line 140 or 143: it calls
  \<^verbatim>\<open>storeTransaction\<close>, or that call is resumed, or, the call having returned, the
  handler runs lines 145 to 157. An invocation in another phase has nothing to resume.
\<close>

definition handlePendingTransaction_resumed :: "nat \<Rightarrow> listener \<Rightarrow> listener" where
  "handlePendingTransaction_resumed i l =
     (if i < length (invocations l) then
        (case invocations l ! i of (txHash, ph) \<Rightarrow>
           (case ph of
              AwaitingEnriched enrichedTx \<Rightarrow>
                (case storeTransaction_call enrichedTx (redisClient l) of
                   (w, r) \<Rightarrow>
                     l\<lparr>redisClient := r,
                       invocations := (invocations l)[i := (txHash, AwaitingStored enrichedTx w)]\<rparr>)
            | AwaitingStored enrichedTx (Some w) \<Rightarrow>
                (case storeTransaction_resumed enrichedTx w (redisClient l) of
                   (w', r) \<Rightarrow>
                     l\<lparr>redisClient := r,
                       invocations := (invocations l)[i := (txHash, AwaitingStored enrichedTx w')]\<rparr>)
            | AwaitingStored enrichedTx None \<Rightarrow>
                if length (seenTxs l) > 10000
                then l\<lparr>seenTxs := [], clears := Suc (clears l),
                       invocations := (invocations l)[i := (txHash, Returned)]\<rparr>
                else l\<lparr>invocations := (invocations l)[i := (txHash, Returned)]\<rparr>
            | AwaitingTransaction \<Rightarrow> l
            | ReturnedSeen \<Rightarrow> l
            | Returned \<Rightarrow> l))
      else l)"

text \<open>
  What happens to the listener, one event at a time: the node announces a pending hash;
  the chain node answers the lookup of invocation \<open>i\<close>; invocation \<open>i\<close> is resumed
  after one of its later awaits. Any sequence of events is a run.
\<close>

datatype event =
    Deliver string
  | Answer nat "thrown + transaction_response option" int
  | Resume nat

fun step :: "interface \<Rightarrow> event \<Rightarrow> listener \<Rightarrow> listener" where
  "step routerInterface (Deliver txHash) l = handlePendingTransaction txHash l"
| "step routerInterface (Answer i answer now) l =
     handlePendingTransaction_fetched routerInterface i answer now l"
| "step routerInterface (Resume i) l = handlePendingTransaction_resumed i l"

fun run :: "interface \<Rightarrow> event list \<Rightarrow> listener \<Rightarrow> listener" where
  "run routerInterface [] l = l"
| "run routerInterface (e # es) l = run routerInterface es (step routerInterface e l)"

text \<open>A listener as \<^verbatim>\<open>new MempoolListener()\<close> leaves it.\<close>

definition new_listener :: "redis \<Rightarrow> listener" where
  "new_listener r = \<lparr>seenTxs = [], redisClient = r, invocations = [], fetched = [], clears = 0\<rparr>"

section \<open>Notions used to state the properties\<close>

text \<open>The transaction the loop hands to \<^verbatim>\<open>sendTransaction\<close> for request \<open>tx\<close> with
  nonce \<open>n\<close>, when the fee data report the gas price \<open>fee\<close>.\<close>

definition sent_for :: "nat \<Rightarrow> transaction_request \<Rightarrow> int option \<Rightarrow> sent_transaction" where
  "sent_for n tx fee = \<lparr>request = tx, sent_nonce = n,
                      sent_gasLimit = effective_gasLimit (req_gasLimit tx),
                      sent_gasPrice = effective_gasPrice fee\<rparr>"


text \<open>The gas cost the loop adds for one receipt: the gas used, as a double, times the
  gas price of the transaction sent.\<close>

definition rounded_cost :: "transaction_receipt \<times> 'w \<times> sent_transaction \<Rightarrow> int" where
  "rounded_cost p = (case p of (rc, wk, t) \<Rightarrow>
      (case Number_of_bigint (receipt_gasUsed rc) of
         PosInfinity \<Rightarrow> 0 | Finite g \<Rightarrow> int g * sent_gasPrice t))"

definition initial_run_state :: "'w \<Rightarrow> 'w run_state" where
  "initial_run_state w = \<lparr>world = w, totalGasUsed = Finite 0, totalGasCost = 0,
                     broadcasts = [], receipts = []\<rparr>"

text \<open>
  The two sums of the fast-mode profit, in exact integers: over the mined transactions,
  the gas used times the gas price the transaction was sent with; over the transactions
  of the bundle, the native value attached.
\<close>

definition gas_spent :: "'w run_state \<Rightarrow> int" where
  "gas_spent s =
     (\<Sum>(rc, wk, t)\<leftarrow>zip (receipts s) (broadcasts s). int (receipt_gasUsed rc) * sent_gasPrice t)"

definition values_sent :: "transaction_bundle \<Rightarrow> int" where
  "values_sent bundle =
     (\<Sum>tx\<leftarrow>transactions bundle. case req_value tx of None \<Rightarrow> 0 | Some v \<Rightarrow> v)"

text \<open>Inputs for running the model: requests to a router, receipts, a bundle of two
  transactions whose second one sends 1 AVAX.\<close>

definition router_request :: "int option \<Rightarrow> transaction_request" where
  "router_request v =
     \<lparr>req_to = Some ''0x60aE616a2155Ee3d9A68541Ba4544862310933d4'',
      req_data = Some ''0x'', req_value = v, req_gasLimit = None\<rparr>"

definition mined :: "nat \<Rightarrow> transaction_receipt" where
  "mined g = \<lparr>status = Some 1, receipt_gasUsed = g\<rparr>"

definition reverted :: "nat \<Rightarrow> transaction_receipt" where
  "reverted g = \<lparr>status = Some 0, receipt_gasUsed = g\<rparr>"

definition demo_bundle :: "string \<Rightarrow> transaction_bundle" where
  "demo_bundle expected =
     \<lparr>transactions = [router_request None, router_request (Some (10 ^ 18))],
      expectedProfit = expected, description = ''WAVAX/USDC arbitrage''\<rparr>"

text \<open>A simulator object whose provider is the scripted sandbox.\<close>

definition demo_simulator :: "(transaction_receipt list) simulator" where
  "demo_simulator =
     \<lparr>simulationProvider = Some (scripted_sandbox (Some 0)), forkBlockNumber = Some 40,
      sandbox_state = [], rpc_calls = []\<rparr>"

subsection \<open>Inputs for the Mempool Ingestor\<close>

text \<open>
  A swap as the end-to-end scenario of the specification describes it:
  \<^verbatim>\<open>swapExactTokensForTokens(10^18, 0, [WAVAX, USDC], to, deadline)\<close>, its ABI
  encoding, and an interface that knows this one call.
\<close>

definition WAVAX :: string where
  "WAVAX = ''0xB31f66AA3C1e785363F0875A1B74E27b85FD66c7''"

definition USDC :: string where
  "USDC = ''0xB97EF9Ef8734C71904D8002F8b6Bc66Dd9c48a6E''"

definition demo_args :: "js_val list" where
  "demo_args = [VBigInt (10 ^ 18), VBigInt 0, VArray [VString WAVAX, VString USDC],
                VString ''0xf39Fd6e51aad88F6F4ce6aB8827279cffFb92266'', VBigInt 1700000000]"

definition demo_calldata :: string where
  "demo_calldata = ''0x38ed1739''
     @ ''0000000000000000000000000000000000000000000000000de0b6b3a7640000''
     @ ''0000000000000000000000000000000000000000000000000000000000000000''
     @ ''00000000000000000000000000000000000000000000000000000000000000a0''
     @ ''000000000000000000000000f39fd6e51aad88f6f4ce6ab8827279cfffb92266''
     @ ''000000000000000000000000000000000000000000000000000000006553f100''
     @ ''0000000000000000000000000000000000000000000000000000000000000002''
     @ ''000000000000000000000000b31f66aa3c1e785363f0875a1b74e27b85fd66c7''
     @ ''000000000000000000000000b97ef9ef8734c71904d8002f8b6bc66dd9c48a6e''"

definition demo_interface :: interface where
  "demo_interface =
     \<lparr>parseTransaction =
        (\<lambda>d. if d = demo_calldata
              then Inr (Some \<lparr>td_name = ''swapExactTokensForTokens'', td_args = demo_args\<rparr>)
              else Inr None),
      encodeFunctionData =
        (\<lambda>name as. if name = ''swapExactTokensForTokens'' \<and> as = demo_args
                    then demo_calldata else ''0x'')\<rparr>"

text \<open>A cache that holds nothing and whose connection does not fail.\<close>

definition empty_redis :: redis where
  "empty_redis = \<lparr>entries = [], healthy_calls = None, served = []\<rparr>"

text \<open>
  Pending hashes \<^verbatim>\<open>0x\<close>, \<^verbatim>\<open>0xa\<close>, \<^verbatim>\<open>0xaa\<close>, ..., one per number, and a chain
  node that knows every hash as a contract creation (no recipient, so nothing is
  decoded).
\<close>

definition pending_hash :: "nat \<Rightarrow> string" where
  "pending_hash n = ''0x'' @ replicate n CHR ''a''"

definition creation_of :: "string \<Rightarrow> transaction_response" where
  "creation_of h =
     \<lparr>resp_hash = h, resp_from = ''0xf39Fd6e51aad88F6F4ce6aB8827279cffFb92266'',
      resp_to = None, resp_value = 0, resp_gasLimit = 21000, resp_gasPrice = Some 25000000000,
      resp_maxFeePerGas = None, resp_maxPriorityFeePerGas = None, resp_nonce = 0,
      resp_data = ''0x'', resp_blockNumber = None\<rparr>"

definition demo_chain :: "string \<Rightarrow> thrown + transaction_response option" where
  "demo_chain h = Inr (Some (creation_of h))"

text \<open>
  The events of an invocation for a hash the demo chain knows. It is begun: the hash is
  announced as invocation \<open>i\<close>, the chain node answers, and the invocation is resumed
  and calls \<^verbatim>\<open>storeTransaction\<close>, which sends its one command and waits for the
  reply. It is complete when it has been resumed twice more: \<^verbatim>\<open>storeTransaction\<close>
  returns, and the handler runs to its end.
\<close>

definition begun_delivery :: "nat \<Rightarrow> string \<Rightarrow> event list" where
  "begun_delivery i h = [Deliver h, Answer i (demo_chain h) 0, Resume i]"

definition complete_delivery :: "nat \<Rightarrow> string \<Rightarrow> event list" where
  "complete_delivery i h = begun_delivery i h @ [Resume i, Resume i]"

text \<open>The first \<open>k\<close> pending hashes, each announced and handled to the end before the
  next one is announced.\<close>

definition deliveries :: "nat \<Rightarrow> event list" where
  "deliveries k = concat (map (\<lambda>n. complete_delivery n (pending_hash n)) [0..<k])"

text \<open>10 001 different hashes, one after the other, and then the last of them once
  more.\<close>

definition flood :: "event list" where
  "flood = deliveries 10001 @ complete_delivery 10001 (pending_hash 10000)"

text \<open>
  10 000 different hashes, one after the other; then one more hash, whose invocation has
  recorded it and waits for the cache to reply; then a hash that was seen before is
  announced.
\<close>

definition late_duplicate :: "event list" where
  "late_duplicate =
     deliveries 10000 @ begun_delivery 10000 (pending_hash 10000) @ [Deliver (pending_hash 5)]"

text \<open>The listener after 10 000 different hashes and one more, whose invocation has been
  resumed with the reply of the cache and has only lines 145 to 157 left to run.\<close>

definition about_to_return :: listener where
  "about_to_return =
     run demo_interface
       (deliveries 10000 @ begun_delivery 10000 (pending_hash 10000) @ [Resume 10000])
       (new_listener empty_redis)"

text \<open>One hash announced twice before the chain node has answered the first lookup.\<close>

definition early_duplicate :: "event list" where
  "early_duplicate =
     [Deliver (pending_hash 5), Deliver (pending_hash 5),
      Answer 0 (demo_chain (pending_hash 5)) 0, Answer 1 (demo_chain (pending_hash 5)) 0,
      Resume 0, Resume 1, Resume 0, Resume 1, Resume 0, Resume 1]"

text \<open>The listener after one hash was handled, and what comes next: the same hash is
  announced again, and then another one is announced and handled.\<close>

definition seen_once :: listener where
  "seen_once =
     run demo_interface (complete_delivery 0 (pending_hash 5)) (new_listener empty_redis)"

definition announced_again :: "event list" where
  "announced_again = Deliver (pending_hash 5) # complete_delivery 2 (pending_hash 6)"

text \<open>The invocations that have recorded their hash in the dedup set and have not
  returned: those past line 137.\<close>

fun recording :: "phase \<Rightarrow> bool" where
  "recording (AwaitingEnriched enrichedTx) = True"
| "recording (AwaitingStored enrichedTx w) = True"
| "recording AwaitingTransaction = False"
| "recording ReturnedSeen = False"
| "recording Returned = False"

definition in_flight :: "listener \<Rightarrow> nat" where
  "in_flight l = length (filter (\<lambda>inv. recording (snd inv)) (invocations l))"

text \<open>A call of \<^verbatim>\<open>storeTransaction\<close> that is resumed until it returns while nothing else
  uses the cache (it awaits at most four replies).\<close>

fun store_alone :: "nat \<Rightarrow> enriched_transaction \<Rightarrow> store_wait option \<times> redis \<Rightarrow> redis" where
  "store_alone n tx (None, r) = r"
| "store_alone 0 tx (Some w, r) = r"
| "store_alone (Suc n) tx (Some w, r) = store_alone n tx (storeTransaction_resumed tx w r)"

text \<open>The swap above as the chain node returns it for the pending hash \<^verbatim>\<open>0xaaaa\<close>.\<close>

definition demo_swap_response :: transaction_response where
  "demo_swap_response =
     \<lparr>resp_hash = ''0xaaaa'', resp_from = ''0xf39Fd6e51aad88F6F4ce6aB8827279cffFb92266'',
      resp_to = Some ''0x60aE616a2155Ee3d9A68541Ba4544862310933d4'', resp_value = 0,
      resp_gasLimit = 300000, resp_gasPrice = Some 25000000000,
      resp_maxFeePerGas = None, resp_maxPriorityFeePerGas = None, resp_nonce = 3,
      resp_data = demo_calldata, resp_blockNumber = None\<rparr>"

text \<open>The hashes on the list \<^verbatim>\<open>swap_queue\<close>, newest first; none when the key is
  missing.\<close>

definition queued :: "redis \<Rightarrow> string list" where
  "queued r =
     (case map_of (entries r) (REDIS_KEY_PREFIX @ ''swap_queue'') of
        None \<Rightarrow> []
      | Some en \<Rightarrow> (case content en of RList xs \<Rightarrow> xs | RString s \<Rightarrow> []))"

text \<open>An enriched transaction that is flagged as a swap and whose decoded call holds no
  \<^verbatim>\<open>bigint\<close>.\<close>

definition flagged_swap :: enriched_transaction where
  "flagged_swap =
     \<lparr>tx_hash = ''0xbbbb'', tx_from = ''0xf39Fd6e51aad88F6F4ce6aB8827279cffFb92266'',
      tx_to = Some ''0x60aE616a2155Ee3d9A68541Ba4544862310933d4'', tx_value = ''0'',
      tx_gasLimit = ''300000'', tx_gasPrice = ''25000000000'', tx_maxFeePerGas = None,
      tx_maxPriorityFeePerGas = None, tx_nonce = 4, tx_data = ''0x'', tx_timestamp = 0,
      tx_blockNumber = None,
      tx_decodedCall = Some \<lparr>contractAddress = ''0x60aE616a2155Ee3d9A68541Ba4544862310933d4'',
         functionName = ''swap'', args = [], isSwap = True, tokenIn = None, tokenOut = None,
         amountIn = None, amountOut = None, path = None\<rparr>\<rparr>"

section \<open>Properties of the Bundle Simulator\<close>

subsection \<open>Waiting and logging\<close>

text \<open>The two checks the loop makes on what \<^verbatim>\<open>wait\<close> resolves with never fire: it
  resolves with a receipt, and the status of that receipt is not 0.\<close>

lemma wait_answers:
  "wait f \<noteq> Fulfilled None"
  "wait f = Fulfilled (Some rc) \<Longrightarrow> status rc \<noteq> Some 0"
  by (auto simp: wait_def split: fate.splits if_splits)

lemma formatEther_in_range: "\<bar>v\<bar> < 2 ^ 511 \<Longrightarrow> formatEther v = Inr ()"
  by (auto simp: formatEther_def)

subsection \<open>One iteration of the loop\<close>

lemma execute_Cons_cases:
  assumes "execute_transactions sb N i (tx # rest) s = (res, s')"
  obtains
    (fee_throws) e where "getFeeData sb (world s) = Inl e" "res = Threw e" "s' = s"
  | (no_answer) fee e where "getFeeData sb (world s) = Inr fee" "res = Threw e"
      "broadcasts s' = broadcasts s @ [(world s, sent_for (N + i) tx fee)]"
      "receipts s' = receipts s"
  | (unmined) fee where "getFeeData sb (world s) = Inr fee" "res = Hung"
      "broadcasts s' = broadcasts s @ [(world s, sent_for (N + i) tx fee)]"
      "receipts s' = receipts s"
  | (reverted) fee rc where "getFeeData sb (world s) = Inr fee"
      "res = Threw (Error ''transaction execution reverted'')" "status rc = Some 0"
      "broadcasts s' = broadcasts s @ [(world s, sent_for (N + i) tx fee)]"
      "receipts s' = receipts s @ [rc]"
  | (overflow) fee rc e where "getFeeData sb (world s) = Inr fee" "res = Threw e"
      "status rc \<noteq> Some 0" "Number_of_bigint (receipt_gasUsed rc) = PosInfinity"
      "broadcasts s' = broadcasts s @ [(world s, sent_for (N + i) tx fee)]"
      "receipts s' = receipts s @ [rc]"
  | (unprintable) fee rc g e where "getFeeData sb (world s) = Inr fee" "res = Threw e"
      "status rc \<noteq> Some 0" "Number_of_bigint (receipt_gasUsed rc) = Finite g"
      "formatEther (int g * effective_gasPrice fee) = Inl e"
      "broadcasts s' = broadcasts s @ [(world s, sent_for (N + i) tx fee)]"
      "receipts s' = receipts s @ [rc]"
  | (continue) fee rc g s3 where "getFeeData sb (world s) = Inr fee"
      "status rc \<noteq> Some 0" "Number_of_bigint (receipt_gasUsed rc) = Finite g"
      "broadcasts s3 = broadcasts s @ [(world s, sent_for (N + i) tx fee)]"
      "receipts s3 = receipts s @ [rc]"
      "totalGasCost s3 = totalGasCost s + int g * effective_gasPrice fee"
      "totalGasUsed s3 = js_add (totalGasUsed s) (Finite g)"
      "execute_transactions sb N (Suc i) rest s3 = (res, s')"
proof (cases "getFeeData sb (world s)")
  case (Inl e)
  show ?thesis by (rule fee_throws[of e]) (use assms Inl in simp_all)
next
  case fee: (Inr fee)
  show ?thesis
  proof (cases "sendTransaction sb (world s) (sent_for (N + i) tx fee)")
    case (Inl e)
    show ?thesis
      by (rule no_answer[of fee e]) (use assms fee Inl in \<open>auto simp: sent_for_def Let_def\<close>)
  next
    case snd: (Inr w1)
    show ?thesis
    proof (cases "mine sb w1")
      case Unmined
      show ?thesis
        by (rule unmined[of fee])
           (use assms fee snd Unmined in \<open>auto simp: sent_for_def Let_def wait_def\<close>)
    next
      case (Lost e)
      show ?thesis
        by (rule no_answer[of fee e])
           (use assms fee snd Lost in \<open>auto simp: sent_for_def Let_def wait_def\<close>)
    next
      case (Mined w2 rc)
      show ?thesis
      proof (cases "status rc = Some 0")
        case True
        show ?thesis
          by (rule reverted[of fee rc])
             (use assms fee snd Mined True in \<open>auto simp: sent_for_def Let_def wait_def\<close>)
      next
        case False
        show ?thesis
        proof (cases "Number_of_bigint (receipt_gasUsed rc)")
          case PosInfinity
          show ?thesis
            by (rule overflow[of fee _ rc])
               (use assms fee snd Mined False PosInfinity in
                 \<open>auto simp: sent_for_def Let_def wait_def\<close>)
        next
          case (Finite g)
          show ?thesis
          proof (cases "formatEther (int g * effective_gasPrice fee)")
            case (Inl e)
            show ?thesis
              by (rule unprintable[of fee e rc g])
                 (use assms fee snd Mined False Finite Inl in
                   \<open>auto simp: sent_for_def Let_def wait_def\<close>)
          next
            case (Inr u)
            show ?thesis
              by (rule continue[of fee rc g])
                 (use assms fee snd Mined False Finite Inr in
                   \<open>auto simp: sent_for_def Let_def wait_def\<close>)
          qed
        qed
      qed
    qed
  qed
qed

subsection \<open>Invariants of the loop\<close>




lemma execute_success:
  assumes "execute_transactions sb N i txs s = (Completed, s')"
    and "length (broadcasts s) = length (receipts s)"
    and "totalGasCost s = sum_list (map rounded_cost (zip (receipts s) (broadcasts s)))"
  shows "length (broadcasts s') = length (receipts s') \<and>
         length (receipts s') = length (receipts s) + length txs \<and>
         totalGasCost s' = sum_list (map rounded_cost (zip (receipts s') (broadcasts s')))"
  using assms
proof (induction txs arbitrary: i s)
  case Nil
  then show ?case by simp
next
  case (Cons tx rest)
  from Cons.prems(1) show ?case
  proof (cases rule: execute_Cons_cases)
    case (continue fee rc g s3)
    have "length (broadcasts s') = length (receipts s') \<and>
         length (receipts s') = length (receipts s3) + length rest \<and>
         totalGasCost s' = sum_list (map rounded_cost (zip (receipts s') (broadcasts s')))"
      by (rule Cons.IH[OF continue(8)])
         (use continue Cons.prems(2,3) in \<open>auto simp: rounded_cost_def sent_for_def\<close>)
    then show ?thesis using continue(5) by simp
  qed simp_all
qed

lemma execute_stops:
  assumes "execute_transactions sb N i txs s = (res, s')" and "res \<noteq> Completed"
    and "length (broadcasts s) = length (receipts s)"
    and "\<forall>rc\<in>set (receipts s'). status rc \<noteq> Some 0
            \<and> Number_of_bigint (receipt_gasUsed rc) \<noteq> PosInfinity"
    and "\<forall>p\<in>set (zip (receipts s') (broadcasts s')). formatEther (rounded_cost p) = Inr ()"
  shows "length (receipts s') < length (receipts s) + length txs"
  using assms
proof (induction txs arbitrary: i s)
  case Nil
  then show ?case by simp
next
  case (Cons tx rest)
  from Cons.prems(1) show ?case
  proof (cases rule: execute_Cons_cases)
    case (fee_throws e)
    then show ?thesis by simp
  next
    case (no_answer fee e)
    then show ?thesis by simp
  next
    case (unmined fee)
    then show ?thesis by simp
  next
    case (reverted fee rc)
    with Cons.prems(4) show ?thesis by auto
  next
    case (overflow fee rc e)
    with Cons.prems(4) show ?thesis by auto
  next
    case (unprintable fee rc g e)
    have "(rc, world s, sent_for (N + i) tx fee) \<in> set (zip (receipts s') (broadcasts s'))"
      using unprintable(6,7) Cons.prems(3) by simp
    with Cons.prems(5)
    have "formatEther (rounded_cost (rc, world s, sent_for (N + i) tx fee)) = Inr ()"
      by blast
    with unprintable(4,5) show ?thesis by (simp add: rounded_cost_def sent_for_def)
  next
    case (continue fee rc g s3)
    have "length (receipts s') < length (receipts s3) + length rest"
      by (rule Cons.IH[OF continue(8) Cons.prems(2) _ Cons.prems(4,5)])
         (use continue(4,5) Cons.prems(3) in simp)
    then show ?thesis using continue(5) by simp
  qed
qed

lemma subtract_values_sum:
  "subtract_values p txs =
     p - sum_list (map (\<lambda>tx. case req_value tx of None \<Rightarrow> 0 | Some v \<Rightarrow> v) txs)"
  by (induction txs arbitrary: p) (auto split: option.splits)

lemma Number_of_bigint_exact: "n \<le> 2 ^ 53 \<Longrightarrow> Number_of_bigint n = Finite n"
proof (cases "n < 2 ^ 53")
  case True
  then show ?thesis by (simp add: Number_of_bigint_def)
next
  case False
  assume "n \<le> 2 ^ 53"
  with False have n: "n = 2 ^ 53" by simp
  have "bit_length (2 ^ 53) = 54" by (simp add: bit_length.simps)
  then show ?thesis unfolding n by (simp add: Number_of_bigint_def Let_def)
qed

lemma js_BigInt_empty: "js_BigInt [] = Some 0"
  by (simp add: js_BigInt_def trim_def)

lemma js_BigInt_zero: "js_BigInt ''0'' = Some 0"
  by (simp add: js_BigInt_def trim_def is_white_space_def parse_literal_def digit_value_def Let_def)

subsection \<open>The outcomes of simulateBundle\<close>



subsection \<open>Fast-mode profit\<close>

lemmas demo_run_simps =
  simulateBundle_def simulate_try_def scripted_sandbox_def demo_bundle_def router_request_def
  mined_def reverted_def Let_def effective_gasPrice_def effective_gasLimit_def
  Number_of_bigint_def default_gasPrice_def GAS_LIMIT_def fast_profit_def
  js_BigInt_def trim_def is_white_space_def parse_literal_def digit_value_def
  wait_def formatEther_def test_balance_def testWallet_address_def

text \<open>
  Claim C1, as stated, fails. The bundle below is simulated in fast mode, both of its
  transactions are mined with status 1, and its expected profit is \<open>10^160\<close> wei (a 1
  and 160 zeros). The
  profit is computed, but the log line that follows prints it with
  \<^verbatim>\<open>ethers.formatEther\<close>, which throws for a value of \<open>2^511\<close> or more; the throw
  is caught, and the result is a failure with profit "0".
\<close>

theorem fast_profit_not_printable:
  "simulateBundle (Some (scripted_sandbox (Some 0))) [mined 21000, mined 150000]
       (demo_bundle
          ''10000000000000000000000000000000000000000000000000000000000000000000000000000000000000000000000000000000000000000000000000000000000000000000000000000000000000000'')
       True =
     (Fulfilled \<lparr>success = False, gasUsed = Finite 0, profit = ''0'',
                 error = Some ''overflow'', executionTime = 0\<rparr>,
      \<lparr>world = [], totalGasUsed = Finite 171000, totalGasCost = 4275000000000000,
       broadcasts = [([mined 21000, mined 150000], sent_for 7 (router_request None) (Some 0)),
                     ([mined 150000], sent_for 8 (router_request (Some (10 ^ 18))) (Some 0))],
       receipts = [mined 21000, mined 150000]\<rparr>)"
  by (simp add: demo_run_simps sent_for_def)

text \<open>
  Two more conditions that the amended claim names are needed as well. A receipt that
  reports \<open>2^53 + 1\<close> gas is counted as \<open>2^53\<close>, because the gas used goes through
  \<^verbatim>\<open>Number\<close>: the profit is 25 000 000 000 wei more than the exact one. And when the
  balance read before the loop is rejected, a bundle without transactions gives a
  failure, not its expected profit.
\<close>

lemma fast_profit_rounds_gas:
  "fst (simulateBundle (Some (scripted_sandbox (Some 0))) [mined 9007199254740993, mined 21000]
          (demo_bundle ''0'') True) =
     Fulfilled \<lparr>success = True, gasUsed = Finite 9007199254761992,
                profit = ''-225179982369049800000000000'', error = None, executionTime = 0\<rparr>"
  by (simp add: demo_run_simps bit_length.simps bigint_toString_def number_toString.simps
        digit_char_def)

lemma fast_profit_needs_reads:
  "simulateBundle
       (Some ((scripted_sandbox (Some 0))\<lparr>getBalance := \<lambda>w a. Inl (Error ''timeout'')\<rparr>)) []
       \<lparr>transactions = [], expectedProfit = ''5'', description = ''no transactions''\<rparr> True =
     (Fulfilled \<lparr>success = False, gasUsed = Finite 0, profit = ''0'',
                 error = Some ''timeout'', executionTime = 0\<rparr>,
      initial_run_state [])"
  by (simp add: simulateBundle_def simulate_try_def scripted_sandbox_def Let_def
        initial_run_state_def)

text \<open>
  Claim C1, amended. A bundle is simulated in fast mode; the balance and the transaction
  count of the test wallet were read; every transaction of the bundle was mined with a
  status other than 0 and with at most \<open>2^53\<close> gas used (the range in which
  \<^verbatim>\<open>Number(receipt.gasUsed)\<close> is exact); \<^verbatim>\<open>BigInt\<close> reads the integer \<open>e\<close> from
  \<^verbatim>\<open>bundle.expectedProfit\<close>; and the amounts the log lines print (the initial
  balance, the gas cost of each transaction, the total gas cost and the profit) are below
  \<open>2^511\<close> in absolute value. Then the call returns a success whose profit is the decimal
  string of \<open>e\<close>, minus the sum over the transactions of gas used times the gas price
  the transaction was sent with, minus the sum of the native values of the transactions.
\<close>

theorem simulateBundle_fast_profit:
  assumes run: "simulateBundle (Some sb) w bundle True = (p, s)"
    and reads: "getBalance sb w testWallet_address = Inr balance"
               "getTransactionCount sb w testWallet_address = Inr N"
    and every: "length (receipts s) = length (transactions bundle)"
    and good: "\<forall>rc\<in>set (receipts s). status rc \<noteq> Some 0 \<and> receipt_gasUsed rc \<le> 2 ^ 53"
    and expected: "js_BigInt (expectedProfit bundle) = Some e"
    and printable: "\<bar>balance\<bar> < 2 ^ 511"
      "\<forall>(rc, wk, t)\<in>set (zip (receipts s) (broadcasts s)).
          \<bar>int (receipt_gasUsed rc) * sent_gasPrice t\<bar> < 2 ^ 511"
      "\<bar>gas_spent s\<bar> < 2 ^ 511"
      "\<bar>e - gas_spent s - values_sent bundle\<bar> < 2 ^ 511"
  shows "\<exists>r. p = Fulfilled r \<and> success r \<and>
             profit r = bigint_toString (e - gas_spent s - values_sent bundle)"
proof -
  obtain res s1 where ex:
    "execute_transactions sb N 0 (transactions bundle) (initial_run_state w) = (res, s1)"
    by (cases "execute_transactions sb N 0 (transactions bundle) (initial_run_state w)")
  have fmt: "formatEther balance = Inr ()"
    by (rule formatEther_in_range[OF printable(1)])
  have s: "s = s1"
    using run reads fmt ex
    by (auto simp: simulateBundle_def simulate_try_def Let_def initial_run_state_def
             split: loop_end.splits sum.splits)
  have cost: "rounded_cost q = (case q of (rc, wk, t) \<Rightarrow> int (receipt_gasUsed rc) * sent_gasPrice t)"
    if "q \<in> set (zip (receipts s) (broadcasts s))"
    for q :: "transaction_receipt \<times> 'a \<times> sent_transaction"
  proof -
    obtain rc wk t where q: "q = (rc, wk, t)" by (cases q)
    with that have "rc \<in> set (receipts s)" by (auto dest: set_zip_leftD)
    with good have "receipt_gasUsed rc \<le> 2 ^ 53" by blast
    then show ?thesis by (simp add: q rounded_cost_def Number_of_bigint_exact)
  qed
  have sums: "sum_list (map rounded_cost (zip (receipts s) (broadcasts s))) = gas_spent s"
    unfolding gas_spent_def
    by (rule arg_cong[where f = sum_list], rule map_cong) (auto simp: cost)
  have good': "\<forall>rc\<in>set (receipts s1). status rc \<noteq> Some 0
                 \<and> Number_of_bigint (receipt_gasUsed rc) \<noteq> PosInfinity"
    using good s by (auto simp: Number_of_bigint_exact)
  have printed: "\<forall>q\<in>set (zip (receipts s1) (broadcasts s1)). formatEther (rounded_cost q) = Inr ()"
  proof
    fix q assume q: "q \<in> set (zip (receipts s1) (broadcasts s1))"
    with printable(2) s
    have "\<bar>case q of (rc, wk, t) \<Rightarrow> int (receipt_gasUsed rc) * sent_gasPrice t\<bar> < 2 ^ 511"
      by (cases q) auto
    with cost[of q] q s show "formatEther (rounded_cost q) = Inr ()"
      by (simp add: formatEther_in_range)
  qed
  show ?thesis
  proof (cases "res = Completed")
    case False
    have "length (receipts s1) < length (receipts (initial_run_state w)) + length (transactions bundle)"
      by (rule execute_stops[OF ex False _ good' printed]) (simp add: initial_run_state_def)
    with every s show ?thesis by (simp add: initial_run_state_def)
  next
    case True
    have inv: "totalGasCost s1 = gas_spent s"
      using execute_success[OF ex[unfolded True]] sums s by (simp add: initial_run_state_def)
    define P where "P = e - gas_spent s - values_sent bundle"
    have calc: "subtract_values (- gas_spent s) (transactions bundle) + e = P"
      by (simp add: P_def subtract_values_sum values_sent_def)
    have none: "e = 0" if "expectedProfit bundle = [] \<or> expectedProfit bundle = ''0''"
      using that expected by (auto simp: js_BigInt_empty js_BigInt_zero)
    have fmtP: "formatEther P = Inr ()"
      unfolding P_def by (rule formatEther_in_range[OF printable(4)])
    have fp: "fast_profit bundle (gas_spent s) = Inr P"
    proof (cases "expectedProfit bundle = [] \<or> expectedProfit bundle = ''0''")
      case True
      with calc none have "subtract_values (- gas_spent s) (transactions bundle) = P" by simp
      with True fmtP show ?thesis
        by (auto simp: fast_profit_def Let_def)
    next
      case False
      with expected calc fmtP show ?thesis
        by (auto simp: fast_profit_def Let_def)
    qed
    have "\<exists>r. p = Fulfilled r \<and> success r \<and> profit r = bigint_toString P"
      using run reads fmt ex True inv fp formatEther_in_range[OF printable(3)]
      by (auto simp: simulateBundle_def simulate_try_def Let_def initial_run_state_def)
    then show ?thesis by (simp add: P_def)
  qed
qed

theorem simulateBundle_fast_profit_witness:
  "\<exists>r s. simulateBundle (Some (scripted_sandbox (Some 0))) [mined 21000, mined 150000]
            (demo_bundle ''20000000000000000'') True = (Fulfilled r, s)
     \<and> success r \<and> profit r = ''-984275000000000000''"
proof -
  let ?sb = "scripted_sandbox (Some 0)"
  let ?w = "[mined 21000, mined 150000]"
  let ?b = "demo_bundle ''20000000000000000''"
  obtain p s where run: "simulateBundle (Some ?sb) ?w ?b True = (p, s)"
    by (cases "simulateBundle (Some ?sb) ?w ?b True")
  have logs: "receipts s = [mined 21000, mined 150000]"
    "broadcasts s = [([mined 21000, mined 150000], sent_for 7 (router_request None) (Some 0)),
                     ([mined 150000], sent_for 8 (router_request (Some (10 ^ 18))) (Some 0))]"
    using run by (auto simp: demo_run_simps sent_for_def)
  have e: "js_BigInt (expectedProfit ?b) = Some 20000000000000000"
    by (simp add: demo_bundle_def js_BigInt_def trim_def is_white_space_def parse_literal_def
        digit_value_def Let_def)
  have sums: "gas_spent s = 4275000000000000" "values_sent ?b = 1000000000000000000"
    by (simp_all add: gas_spent_def values_sent_def logs demo_bundle_def router_request_def
          mined_def sent_for_def effective_gasPrice_def default_gasPrice_def)
  have "\<exists>r. p = Fulfilled r \<and> success r \<and>
          profit r = bigint_toString (20000000000000000 - gas_spent s - values_sent ?b)"
    by (rule simulateBundle_fast_profit[OF run _ _ _ _ e, of test_balance 7])
       (simp_all add: scripted_sandbox_def logs sums demo_bundle_def mined_def test_balance_def
          sent_for_def effective_gasPrice_def default_gasPrice_def values_sent_def
          router_request_def)
  then show ?thesis using run
    by (auto simp: sums bigint_toString_def number_toString.simps digit_char_def)
qed

subsection \<open>Abort on a missing or failed receipt\<close>




subsection \<open>Nonces and gas price\<close>



subsection \<open>The result of a failed simulation\<close>

text \<open>
  Claim C9. Whenever \<^verbatim>\<open>simulateBundle\<close> returns a result with
  \<^verbatim>\<open>success = false\<close>, its \<^verbatim>\<open>gasUsed\<close> is 0 and its \<^verbatim>\<open>profit\<close> is the
  string "0". The witness is a bundle whose first transaction was mined with 21000 gas
  before the second one reverted.
\<close>

theorem simulateBundle_failure_zeroes:
  assumes "simulateBundle provider w bundle fastMode = (Fulfilled r, s)" and "\<not> success r"
  shows "gasUsed r = Finite 0 \<and> profit r = ''0''"
  using assms
  by (auto simp: simulateBundle_def Let_def split: option.splits prod.splits promise.splits)

theorem simulateBundle_failure_zeroes_witness:
  "\<exists>r s. simulateBundle (Some (scripted_sandbox (Some 0))) [mined 21000, reverted 30000]
            (demo_bundle ''0'') True = (Fulfilled r, s)
     \<and> \<not> success r \<and> totalGasUsed s = Finite 21000
     \<and> gasUsed r = Finite 0 \<and> profit r = ''0''"
proof -
  let ?run = "simulateBundle (Some (scripted_sandbox (Some 0))) [mined 21000, reverted 30000]
            (demo_bundle ''0'') True"
  obtain p s where run: "?run = (p, s)"
    by (cases ?run)
  obtain r where p: "p = Fulfilled r" "\<not> success r" "totalGasUsed s = Finite 21000"
    using run by (auto simp: demo_run_simps)
  from simulateBundle_failure_zeroes[OF run[unfolded p(1)] p(2)] run p show ?thesis by simp
qed

subsection \<open>resetFork\<close>

lemma test_balance_string: "bigint_toString test_balance = ''1000000000000000000000000''"
  by (simp add: bigint_toString_def test_balance_def number_toString.simps digit_char_def)

text \<open>
  \<^verbatim>\<open>resetFork\<close> of bundle-simulator.ts: a reset that returns normally has made
  exactly two calls, \<^verbatim>\<open>anvil_reset\<close> with the single object
  \<^verbatim>\<open>{forking: {jsonRpcUrl, blockNumber: head - 2}}\<close> and then
  \<^verbatim>\<open>anvil_setBalance\<close> of the default account to the test balance.
\<close>

lemma resetFork_calls:
  assumes "resetFork (Inr head) sim = (Inr (), sim')"
  shows "rpc_calls sim' = rpc_calls sim @
           [(''anvil_reset'',
             [JObj [(''forking'',
                     JObj [(''jsonRpcUrl'', JStr ''http://127.0.0.1:9650/ext/bc/C/rpc''),
                           (''blockNumber'', JNum (head - 2))])]]),
            (''anvil_setBalance'',
             [JStr ''0xf39Fd6e51aad88F6F4ce6aB8827279cffFb92266'',
              JStr ''1000000000000000000000000''])]
         \<and> forkBlockNumber sim' = Some (head - 2)"
  using assms
  by (auto simp: resetFork_def Let_def rpcUrl_def default_account_def test_balance_string
           split: option.splits sum.splits)

lemma resetFork_calls_witness:
  "\<exists>sim'. resetFork (Inr 100) demo_simulator = (Inr (), sim') \<and>
     rpc_calls sim' =
           [(''anvil_reset'',
             [JObj [(''forking'',
                     JObj [(''jsonRpcUrl'', JStr ''http://127.0.0.1:9650/ext/bc/C/rpc''),
                           (''blockNumber'', JNum 98)])]]),
            (''anvil_setBalance'',
             [JStr ''0xf39Fd6e51aad88F6F4ce6aB8827279cffFb92266'',
              JStr ''1000000000000000000000000''])]"
proof -
  obtain sim' where run: "resetFork (Inr 100) demo_simulator = (Inr (), sim')"
    by (simp add: resetFork_def demo_simulator_def scripted_sandbox_def Let_def)
  from resetFork_calls[OF run] run show ?thesis
    by (simp add: demo_simulator_def)
qed

text \<open>
  Claim C4. The claim holds of \<^verbatim>\<open>resetFork\<close> in bundle-simulator.ts (above). The
  second copy of the class, in src/unnamed/part_003, does not satisfy it: with the head of
  the real chain at block 100 it calls \<^verbatim>\<open>anvil_reset\<close> with the two positional
  arguments \<^verbatim>\<open>rpcUrl, 98\<close>, and it makes no \<^verbatim>\<open>anvil_setBalance\<close> call.
\<close>

theorem resetFork_part_003_positional:
  "resetFork_part_003 (Inr 100) demo_simulator =
     (Inr (), demo_simulator\<lparr>forkBlockNumber := Some 98,
        rpc_calls := [(''anvil_reset'', [JStr ''http://127.0.0.1:9650/ext/bc/C/rpc'', JNum 98])]\<rparr>)"
  by (simp add: resetFork_part_003_def demo_simulator_def scripted_sandbox_def Let_def rpcUrl_def)

section \<open>Properties of the Mempool Ingestor\<close>

subsection \<open>Decoder round trip\<close>

lemma known_router_lower:
  "toLowerCase ''0x60aE616a2155Ee3d9A68541Ba4544862310933d4'' \<in> set (map toLowerCase knownRouters)"
  by (simp add: knownRouters_def)

lemma includes_swap: "string_includes ''swapExactTokensForTokens'' ''swap''"
  by simp

text \<open>
  Claim C5. Take any arguments \<open>(a, b, route, recipient, dl)\<close> with a non-empty route,
  and the calldata that the router interface produces for
  \<^verbatim>\<open>swapExactTokensForTokens\<close> with these arguments. Decoding that calldata for a
  known router yields a decoded call with \<^verbatim>\<open>isSwap = true\<close>, \<^verbatim>\<open>amountIn\<close> the
  decimal string of \<open>a\<close>, \<^verbatim>\<open>path\<close> the route, \<^verbatim>\<open>tokenIn\<close> its first and
  \<^verbatim>\<open>tokenOut\<close> its last element. The interface is the library's: the hypothesis
  \<open>library\<close> says that its \<^verbatim>\<open>parseTransaction\<close> reads the encoding of this call
  back as the function name and the five arguments.
\<close>

theorem decodeTransaction_round_trip:
  assumes library: "parseTransaction iface
             (encodeFunctionData iface ''swapExactTokensForTokens''
                [VBigInt a, VBigInt b, VArray (map VString route), VString recipient, VBigInt dl])
           = Inr (Some \<lparr>td_name = ''swapExactTokensForTokens'',
                         td_args = [VBigInt a, VBigInt b, VArray (map VString route),
                                    VString recipient, VBigInt dl]\<rparr>)"
    and router: "toLowerCase router \<in> set (map toLowerCase knownRouters)"
    and nonempty: "route \<noteq> []"
  shows "\<exists>d. decodeTransaction iface router
               (encodeFunctionData iface ''swapExactTokensForTokens''
                  [VBigInt a, VBigInt b, VArray (map VString route), VString recipient, VBigInt dl])
             = Some d
           \<and> isSwap d
           \<and> functionName d = ''swapExactTokensForTokens''
           \<and> args d = [VBigInt a, VBigInt b, VArray (map VString route), VString recipient, VBigInt dl]
           \<and> amountIn d = Some (bigint_toString a)
           \<and> path d = Some (VArray (map VString route))
           \<and> tokenIn d = Some (VString (route ! 0))
           \<and> tokenOut d = Some (VString (last route))"
  using assms
  by (simp add: decodeTransaction_def dexInterfaces_def Let_def swap_details_def result_index_def
      last_map nth_map)

theorem decodeTransaction_round_trip_witness:
  "\<exists>d. decodeTransaction demo_interface ''0x60aE616a2155Ee3d9A68541Ba4544862310933d4'' demo_calldata
          = Some d
     \<and> isSwap d \<and> amountIn d = Some ''1000000000000000000''
     \<and> path d = Some (VArray [VString WAVAX, VString USDC])
     \<and> tokenIn d = Some (VString WAVAX) \<and> tokenOut d = Some (VString USDC)"
proof -
  have enc: "encodeFunctionData demo_interface ''swapExactTokensForTokens''
          [VBigInt (10 ^ 18), VBigInt 0, VArray (map VString [WAVAX, USDC]),
           VString ''0xf39Fd6e51aad88F6F4ce6aB8827279cffFb92266'', VBigInt 1700000000] = demo_calldata"
    by (simp add: demo_interface_def demo_args_def)
  have lib: "parseTransaction demo_interface
             (encodeFunctionData demo_interface ''swapExactTokensForTokens''
                [VBigInt (10 ^ 18), VBigInt 0, VArray (map VString [WAVAX, USDC]),
           VString ''0xf39Fd6e51aad88F6F4ce6aB8827279cffFb92266'', VBigInt 1700000000])
           = Inr (Some \<lparr>td_name = ''swapExactTokensForTokens'',
                         td_args = [VBigInt (10 ^ 18), VBigInt 0, VArray (map VString [WAVAX, USDC]),
           VString ''0xf39Fd6e51aad88F6F4ce6aB8827279cffFb92266'', VBigInt 1700000000]\<rparr>)"
    unfolding enc by (simp add: demo_interface_def demo_args_def)
  have ten18: "bigint_toString 1000000000000000000 = ''1000000000000000000''"
    by (simp add: bigint_toString_def number_toString.simps digit_char_def)
  from decodeTransaction_round_trip[OF lib known_router_lower, unfolded enc]
  show ?thesis by (auto simp: ten18)
qed

subsection \<open>The cache commands\<close>

lemma serve_healthy: "healthy_calls r = None \<Longrightarrow> serve c r = Some (r\<lparr>served := served r @ [c]\<rparr>)"
  by (simp add: serve_def)







subsection \<open>Cleanup\<close>






subsection \<open>One event\<close>

lemma inj_pending_hash: "pending_hash m = pending_hash n \<longleftrightarrow> m = n"
proof
  assume "pending_hash m = pending_hash n"
  then have "length (pending_hash m) = length (pending_hash n)" by simp
  then show "m = n" by (simp add: pending_hash_def)
qed simp

lemma step_cases:
  obtains
    (idle) "step I e l = l"
  | (seen) h where "e = Deliver h" "h \<in> set (seenTxs l)"
      "step I e l = l\<lparr>invocations := invocations l @ [(h, ReturnedSeen)]\<rparr>"
  | (fetch) h where "e = Deliver h" "h \<notin> set (seenTxs l)"
      "step I e l = l\<lparr>fetched := fetched l @ [h],
                        invocations := invocations l @ [(h, AwaitingTransaction)]\<rparr>"
  | (gone) i h where "i < length (invocations l)" "invocations l ! i = (h, AwaitingTransaction)"
      "step I e l = l\<lparr>invocations := (invocations l)[i := (h, Returned)]\<rparr>"
  | (recorded) i h etx where "i < length (invocations l)"
      "invocations l ! i = (h, AwaitingTransaction)"
      "step I e l = l\<lparr>seenTxs := set_add h (seenTxs l),
                        invocations := (invocations l)[i := (h, AwaitingEnriched etx)]\<rparr>"
  | (store) i h ph etx w r where "i < length (invocations l)" "invocations l ! i = (h, ph)"
      "recording ph"
      "step I e l = l\<lparr>redisClient := r,
                        invocations := (invocations l)[i := (h, AwaitingStored etx w)]\<rparr>"
  | (clear) i h etx where "i < length (invocations l)"
      "invocations l ! i = (h, AwaitingStored etx None)" "length (seenTxs l) > 10000"
      "step I e l = l\<lparr>seenTxs := [], clears := Suc (clears l),
                        invocations := (invocations l)[i := (h, Returned)]\<rparr>"
  | (keep) i h etx where "i < length (invocations l)"
      "invocations l ! i = (h, AwaitingStored etx None)" "length (seenTxs l) \<le> 10000"
      "step I e l = l\<lparr>invocations := (invocations l)[i := (h, Returned)]\<rparr>"
proof (cases e)
  case (Deliver h)
  show ?thesis
  proof (cases "h \<in> set (seenTxs l)")
    case True
    show ?thesis
      by (rule seen[of h]) (use Deliver True in \<open>simp_all add: handlePendingTransaction_def\<close>)
  next
    case False
    show ?thesis
      by (rule fetch[of h]) (use Deliver False in \<open>simp_all add: handlePendingTransaction_def\<close>)
  qed
next
  case (Answer i a now)
  show ?thesis
  proof (cases "i < length (invocations l) \<and> snd (invocations l ! i) = AwaitingTransaction")
    case False
    show ?thesis
      by (rule idle) (use Answer False in \<open>auto simp: handlePendingTransaction_fetched_def\<close>)
  next
    case True
    then have inv: "invocations l ! i = (fst (invocations l ! i), AwaitingTransaction)"
      by (cases "invocations l ! i") simp
    show ?thesis
    proof (cases a)
      case (Inl err)
      show ?thesis
        by (rule gone[of i "fst (invocations l ! i)"])
           (use Answer True inv Inl in \<open>auto simp: handlePendingTransaction_fetched_def\<close>)
    next
      case (Inr found)
      show ?thesis
      proof (cases found)
        case None
        show ?thesis
          by (rule gone[of i "fst (invocations l ! i)"])
             (use Answer True inv Inr None in \<open>auto simp: handlePendingTransaction_fetched_def\<close>)
      next
        case (Some tx)
        show ?thesis
          by (rule recorded[of i "fst (invocations l ! i)" "enrichTransaction I now tx"])
             (use Answer True inv Inr Some in
               \<open>auto simp: handlePendingTransaction_fetched_def Let_def\<close>)
      qed
    qed
  qed
next
  case (Resume i)
  show ?thesis
  proof (cases "i < length (invocations l)")
    case False
    show ?thesis
      by (rule idle) (use Resume False in \<open>simp add: handlePendingTransaction_resumed_def\<close>)
  next
    case True
    obtain h ph where inv: "invocations l ! i = (h, ph)" by (cases "invocations l ! i")
    show ?thesis
    proof (cases ph)
      case AwaitingTransaction
      show ?thesis
        by (rule idle)
           (use Resume True inv AwaitingTransaction in
             \<open>simp add: handlePendingTransaction_resumed_def\<close>)
    next
      case ReturnedSeen
      show ?thesis
        by (rule idle)
           (use Resume True inv ReturnedSeen in \<open>simp add: handlePendingTransaction_resumed_def\<close>)
    next
      case Returned
      show ?thesis
        by (rule idle)
           (use Resume True inv Returned in \<open>simp add: handlePendingTransaction_resumed_def\<close>)
    next
      case (AwaitingEnriched etx)
      obtain w r where call: "storeTransaction_call etx (redisClient l) = (w, r)"
        by (cases "storeTransaction_call etx (redisClient l)")
      show ?thesis
        by (rule store[where i = i and h = h and ph = ph and r = r and etx = etx and w = w])
           (use Resume True inv AwaitingEnriched call in
             \<open>simp_all add: handlePendingTransaction_resumed_def\<close>)
    next
      case (AwaitingStored etx wo)
      show ?thesis
      proof (cases wo)
        case (Some w0)
        obtain w r where call: "storeTransaction_resumed etx w0 (redisClient l) = (w, r)"
          by (cases "storeTransaction_resumed etx w0 (redisClient l)")
        show ?thesis
          by (rule store[where i = i and h = h and ph = ph and r = r and etx = etx and w = w])
             (use Resume True inv AwaitingStored Some call in
               \<open>simp_all add: handlePendingTransaction_resumed_def\<close>)
      next
        case None
        show ?thesis
        proof (cases "length (seenTxs l) > 10000")
          case over: True
          show ?thesis
            by (rule clear[of i h etx])
               (use Resume True inv AwaitingStored None over in
                 \<open>simp_all add: handlePendingTransaction_resumed_def\<close>)
        next
          case under: False
          show ?thesis
            by (rule keep[of i h etx])
               (use Resume True inv AwaitingStored None under in
                 \<open>simp_all add: handlePendingTransaction_resumed_def\<close>)
        qed
      qed
    qed
  qed
qed

lemma run_append: "run I (xs @ ys) l = run I ys (run I xs l)"
  by (induction xs arbitrary: l) simp_all

lemma run_snoc: "run I (es @ [e]) l = step I e (run I es l)"
  by (simp add: run_append)

subsection \<open>What one event keeps\<close>

lemma step_clears_mono: "clears l \<le> clears (step I e l)"
  by (rule step_cases[of I e l]) simp_all

lemma run_clears_mono: "clears l \<le> clears (run I es l)"
proof (induction es arbitrary: l)
  case Nil
  then show ?case by simp
next
  case (Cons e es)
  have "clears l \<le> clears (step I e l)" by (rule step_clears_mono)
  also have "\<dots> \<le> clears (run I es (step I e l))" by (rule Cons.IH)
  finally show ?case by simp
qed

lemma step_keeps_seen:
  assumes "clears (step I e l) = clears l" and "h \<in> set (seenTxs l)"
  shows "h \<in> set (seenTxs (step I e l))"
  by (rule step_cases[of I e l]) (use assms in \<open>auto simp: set_add_def\<close>)

lemma step_fetched:
  assumes "h \<in> set (seenTxs l)"
  shows "\<exists>fs. fetched (step I e l) = fetched l @ fs \<and> h \<notin> set fs"
  by (rule step_cases[of I e l]) (use assms in auto)

lemma step_invocations:
  shows "length (invocations l) \<le> length (invocations (step I e l))"
    and "i < length (invocations l) \<Longrightarrow>
           fst (invocations (step I e l) ! i) = fst (invocations l ! i)"
    and "i < length (invocations l) \<Longrightarrow> snd (invocations l ! i) = ReturnedSeen \<Longrightarrow>
           snd (invocations (step I e l) ! i) = ReturnedSeen"
    and "length (invocations l) \<le> i \<Longrightarrow> i < length (invocations (step I e l)) \<Longrightarrow>
           fst (invocations (step I e l) ! i) \<in> set (seenTxs l) \<Longrightarrow>
           snd (invocations (step I e l) ! i) = ReturnedSeen"
proof -
  show "length (invocations l) \<le> length (invocations (step I e l))"
    by (rule step_cases[of I e l]) simp_all
  show "fst (invocations (step I e l) ! i) = fst (invocations l ! i)"
    if "i < length (invocations l)"
    by (rule step_cases[of I e l]) (use that in \<open>auto simp: nth_append nth_list_update\<close>)
  show "snd (invocations (step I e l) ! i) = ReturnedSeen"
    if "i < length (invocations l)" "snd (invocations l ! i) = ReturnedSeen"
    by (rule step_cases[of I e l]) (use that in \<open>auto simp: nth_append nth_list_update\<close>)
  show "snd (invocations (step I e l) ! i) = ReturnedSeen"
    if "length (invocations l) \<le> i" "i < length (invocations (step I e l))"
      "fst (invocations (step I e l) ! i) \<in> set (seenTxs l)"
    by (rule step_cases[of I e l]) (use that in \<open>auto simp: nth_append\<close>)
qed

subsection \<open>Between two clears\<close>

lemma dedup_trace:
  assumes "h \<in> set (seenTxs l)" and "clears (run I es l) = clears l"
  shows "h \<in> set (seenTxs (run I es l))
       \<and> (\<exists>fs. fetched (run I es l) = fetched l @ fs \<and> h \<notin> set fs)
       \<and> length (invocations l) \<le> length (invocations (run I es l))
       \<and> (\<forall>i. length (invocations l) \<le> i \<and> i < length (invocations (run I es l))
              \<and> fst (invocations (run I es l) ! i) = h
            \<longrightarrow> snd (invocations (run I es l) ! i) = ReturnedSeen)"
  using assms(2)
proof (induction es rule: rev_induct)
  case Nil
  with assms(1) show ?case by auto
next
  case (snoc e es)
  let ?m = "run I es l"
  let ?n = "step I e ?m"
  have n: "run I (es @ [e]) l = ?n" by (rule run_snoc)
  have "clears l \<le> clears ?m" by (rule run_clears_mono)
  moreover have "clears ?m \<le> clears ?n" by (rule step_clears_mono)
  ultimately have same: "clears ?m = clears l" "clears ?n = clears ?m"
    using snoc.prems n by simp_all
  from snoc.IH[OF same(1)] obtain fs where m:
    "h \<in> set (seenTxs ?m)" "fetched ?m = fetched l @ fs" "h \<notin> set fs"
    "length (invocations l) \<le> length (invocations ?m)"
    "\<forall>i. length (invocations l) \<le> i \<and> i < length (invocations ?m)
              \<and> fst (invocations ?m ! i) = h
            \<longrightarrow> snd (invocations ?m ! i) = ReturnedSeen"
    by blast
  have seen: "h \<in> set (seenTxs ?n)" by (rule step_keeps_seen[OF same(2) m(1)])
  from step_fetched[OF m(1), of I e] obtain gs where
    "fetched ?n = fetched ?m @ gs" "h \<notin> set gs" by blast
  with m(2,3) have fetched: "\<exists>fs. fetched ?n = fetched l @ fs \<and> h \<notin> set fs" by simp
  have len: "length (invocations l) \<le> length (invocations ?n)"
    using m(4) step_invocations(1)[of ?m I e] by simp
  have later: "snd (invocations ?n ! i) = ReturnedSeen"
    if i: "length (invocations l) \<le> i" "i < length (invocations ?n)"
      "fst (invocations ?n ! i) = h" for i
  proof (cases "i < length (invocations ?m)")
    case True
    with i(3) step_invocations(2)[OF True, of I e] have "fst (invocations ?m ! i) = h" by simp
    with m(5) i(1) True have "snd (invocations ?m ! i) = ReturnedSeen" by blast
    then show ?thesis by (rule step_invocations(3)[OF True])
  next
    case False
    then have "length (invocations ?m) \<le> i" by simp
    then show ?thesis using i(2) i(3) m(1) by (intro step_invocations(4)) simp_all
  qed
  show ?case unfolding n using seen fetched len later by blast
qed

subsection \<open>The size of the dedup set\<close>

lemma filter_update_count:
  "i < length xs \<Longrightarrow>
   length (filter P (xs[i := v])) + (if P (xs ! i) then 1 else 0) =
   length (filter P xs) + (if P v then 1 else 0)"
proof (induction xs arbitrary: i)
  case Nil
  then show ?case by simp
next
  case (Cons x xs)
  then show ?case by (cases i) auto
qed

lemma step_bound:
  assumes "length (seenTxs l) \<le> 10000 + in_flight l"
  shows "length (seenTxs (step I e l)) \<le> 10000 + in_flight (step I e l)"
proof (rule step_cases[of I e l])
  assume "step I e l = l"
  with assms show ?thesis by simp
next
  fix h assume "step I e l = l\<lparr>invocations := invocations l @ [(h, ReturnedSeen)]\<rparr>"
  with assms show ?thesis by (simp add: in_flight_def)
next
  fix h assume "step I e l = l\<lparr>fetched := fetched l @ [h],
                        invocations := invocations l @ [(h, AwaitingTransaction)]\<rparr>"
  with assms show ?thesis by (simp add: in_flight_def)
next
  fix i h assume i: "i < length (invocations l)" "invocations l ! i = (h, AwaitingTransaction)"
    and s: "step I e l = l\<lparr>invocations := (invocations l)[i := (h, Returned)]\<rparr>"
  from filter_update_count[OF i(1), of "\<lambda>inv. recording (snd inv)" "(h, Returned)"] i(2)
  have "in_flight (step I e l) = in_flight l" by (simp add: in_flight_def s)
  with assms s show ?thesis by simp
next
  fix i h etx assume i: "i < length (invocations l)" "invocations l ! i = (h, AwaitingTransaction)"
    and s: "step I e l = l\<lparr>seenTxs := set_add h (seenTxs l),
                        invocations := (invocations l)[i := (h, AwaitingEnriched etx)]\<rparr>"
  from filter_update_count[OF i(1), of "\<lambda>inv. recording (snd inv)" "(h, AwaitingEnriched etx)"] i(2)
  have "in_flight (step I e l) = Suc (in_flight l)" by (simp add: in_flight_def s)
  moreover have "length (seenTxs (step I e l)) \<le> Suc (length (seenTxs l))"
    by (simp add: s set_add_def)
  ultimately show ?thesis using assms by simp
next
  fix i h ph etx w r assume i: "i < length (invocations l)" "invocations l ! i = (h, ph)"
      "recording ph"
    and s: "step I e l = l\<lparr>redisClient := r,
                        invocations := (invocations l)[i := (h, AwaitingStored etx w)]\<rparr>"
  from filter_update_count[OF i(1), of "\<lambda>inv. recording (snd inv)" "(h, AwaitingStored etx w)"] i(2,3)
  have "in_flight (step I e l) = in_flight l" by (simp add: in_flight_def s)
  with assms s show ?thesis by simp
next
  fix i h etx assume "step I e l = l\<lparr>seenTxs := [], clears := Suc (clears l),
                        invocations := (invocations l)[i := (h, Returned)]\<rparr>"
  then show ?thesis by simp
next
  fix i h etx assume "length (seenTxs l) \<le> 10000"
    and "step I e l = l\<lparr>invocations := (invocations l)[i := (h, Returned)]\<rparr>"
  then show ?thesis by simp
qed

lemma run_bound:
  "length (seenTxs l) \<le> 10000 + in_flight l \<Longrightarrow>
   length (seenTxs (run I es l)) \<le> 10000 + in_flight (run I es l)"
proof (induction es arbitrary: l)
  case Nil
  then show ?case by simp
next
  case (Cons e es)
  show ?case using Cons.IH[OF step_bound[OF Cons.prems]] by simp
qed

subsection \<open>Runs of the demo chain\<close>

lemma creation_not_swap: "\<not> is_swap (enrichTransaction I now (creation_of h))"
  by (simp add: is_swap_def enrichTransaction_def creation_of_def)

lemma begun_delivery_run:
  assumes "h \<notin> set (seenTxs l)" and "healthy_calls (redisClient l) = None"
  shows "seenTxs (run I (begun_delivery (length (invocations l)) h) l) = seenTxs l @ [h]"
    and "fetched (run I (begun_delivery (length (invocations l)) h) l) = fetched l @ [h]"
    and "served (redisClient (run I (begun_delivery (length (invocations l)) h) l)) =
           served (redisClient l) @ [SETEX (''mev:tx:'' @ h) 300]"
    and "healthy_calls (redisClient (run I (begun_delivery (length (invocations l)) h) l)) = None"
    and "invocations (run I (begun_delivery (length (invocations l)) h) l) =
           invocations l @ [(h, AwaitingStored (enrichTransaction I 0 (creation_of h))
                                   (Some (SetTx (Inr ()))))]"
    and "clears (run I (begun_delivery (length (invocations l)) h) l) = clears l"
  using assms
  by (simp_all add: begun_delivery_def handlePendingTransaction_def
        handlePendingTransaction_fetched_def handlePendingTransaction_resumed_def demo_chain_def
        set_add_def storeTransaction_call_def JSON_stringify_def enrichTransaction_def
        creation_of_def setEx_def serve_def Let_def REDIS_KEY_PREFIX_def MEMPOOL_TTL_def)

lemma resume_reply:
  assumes "invocations l = pre @ [(h, AwaitingStored etx (Some (SetTx (Inr ()))))]"
    and "\<not> is_swap etx"
  shows "step I (Resume (length pre)) l = l\<lparr>invocations := pre @ [(h, AwaitingStored etx None)]\<rparr>"
  using assms by (simp add: handlePendingTransaction_resumed_def)

lemma resume_return:
  assumes "invocations l = pre @ [(h, AwaitingStored etx None)]"
  shows "step I (Resume (length pre)) l =
           (if length (seenTxs l) > 10000
            then l\<lparr>seenTxs := [], clears := Suc (clears l),
                   invocations := pre @ [(h, Returned)]\<rparr>
            else l\<lparr>invocations := pre @ [(h, Returned)]\<rparr>)"
  using assms by (simp add: handlePendingTransaction_resumed_def)

lemma complete_delivery_run:
  assumes "h \<notin> set (seenTxs l)" and "healthy_calls (redisClient l) = None"
  shows "seenTxs (run I (complete_delivery (length (invocations l)) h) l) =
           (if length (seenTxs l) \<ge> 10000 then [] else seenTxs l @ [h])"
    and "fetched (run I (complete_delivery (length (invocations l)) h) l) = fetched l @ [h]"
    and "served (redisClient (run I (complete_delivery (length (invocations l)) h) l)) =
           served (redisClient l) @ [SETEX (''mev:tx:'' @ h) 300]"
    and "healthy_calls (redisClient (run I (complete_delivery (length (invocations l)) h) l)) = None"
    and "invocations (run I (complete_delivery (length (invocations l)) h) l) =
           invocations l @ [(h, Returned)]"
    and "clears (run I (complete_delivery (length (invocations l)) h) l) =
           (if length (seenTxs l) \<ge> 10000 then Suc (clears l) else clears l)"
proof -
  let ?i = "length (invocations l)"
  let ?etx = "enrichTransaction I 0 (creation_of h)"
  let ?b = "run I (begun_delivery ?i h) l"
  note b = begun_delivery_run[OF assms, of I]
  have r1: "step I (Resume ?i) ?b = ?b\<lparr>invocations := invocations l @ [(h, AwaitingStored ?etx None)]\<rparr>"
    by (rule resume_reply[OF b(5) creation_not_swap])
  let ?c = "?b\<lparr>invocations := invocations l @ [(h, AwaitingStored ?etx None)]\<rparr>"
  have r2: "step I (Resume ?i) ?c =
           (if length (seenTxs ?c) > 10000
            then ?c\<lparr>seenTxs := [], clears := Suc (clears ?c),
                   invocations := invocations l @ [(h, Returned)]\<rparr>
            else ?c\<lparr>invocations := invocations l @ [(h, Returned)]\<rparr>)"
    by (rule resume_return) simp
  have all: "run I (complete_delivery ?i h) l = step I (Resume ?i) ?c"
    by (simp add: complete_delivery_def run_append r1 del: step.simps)
  show "seenTxs (run I (complete_delivery ?i h) l) =
           (if length (seenTxs l) \<ge> 10000 then [] else seenTxs l @ [h])"
    unfolding all r2 using b(1) by simp
  show "fetched (run I (complete_delivery ?i h) l) = fetched l @ [h]"
    unfolding all r2 using b(2) by simp
  show "served (redisClient (run I (complete_delivery ?i h) l)) =
           served (redisClient l) @ [SETEX (''mev:tx:'' @ h) 300]"
    unfolding all r2 using b(3) by simp
  show "healthy_calls (redisClient (run I (complete_delivery ?i h) l)) = None"
    unfolding all r2 using b(4) by simp
  show "invocations (run I (complete_delivery ?i h) l) = invocations l @ [(h, Returned)]"
    unfolding all r2 by simp
  show "clears (run I (complete_delivery ?i h) l) =
           (if length (seenTxs l) \<ge> 10000 then Suc (clears l) else clears l)"
    unfolding all r2 using b(1,6) by simp
qed

lemma deliveries_Suc:
  "deliveries (Suc k) = deliveries k @ complete_delivery k (pending_hash k)"
  by (simp add: deliveries_def)

lemma deliveries_run:
  assumes "k \<le> 10000"
  shows "seenTxs (run I (deliveries k) (new_listener empty_redis)) = map pending_hash [0..<k]
       \<and> fetched (run I (deliveries k) (new_listener empty_redis)) = map pending_hash [0..<k]
       \<and> served (redisClient (run I (deliveries k) (new_listener empty_redis))) =
           map (\<lambda>n. SETEX (''mev:tx:'' @ pending_hash n) 300) [0..<k]
       \<and> healthy_calls (redisClient (run I (deliveries k) (new_listener empty_redis))) = None
       \<and> length (invocations (run I (deliveries k) (new_listener empty_redis))) = k
       \<and> clears (run I (deliveries k) (new_listener empty_redis)) = 0"
  using assms
proof (induction k)
  case 0
  show ?case by (simp add: deliveries_def new_listener_def empty_redis_def)
next
  case (Suc k)
  let ?m = "run I (deliveries k) (new_listener empty_redis)"
  from Suc have m: "seenTxs ?m = map pending_hash [0..<k]"
    "fetched ?m = map pending_hash [0..<k]"
    "served (redisClient ?m) = map (\<lambda>n. SETEX (''mev:tx:'' @ pending_hash n) 300) [0..<k]"
    "healthy_calls (redisClient ?m) = None" "length (invocations ?m) = k" "clears ?m = 0"
    by simp_all
  have fresh: "pending_hash k \<notin> set (seenTxs ?m)"
    by (simp add: m(1) image_iff inj_pending_hash)
  note c = complete_delivery_run[OF fresh m(4), of I, unfolded m(5)]
  have small: "\<not> 10000 \<le> length (seenTxs ?m)" using Suc.prems by (simp add: m(1))
  show ?case
    unfolding deliveries_Suc run_append
    using c m small by simp
qed

subsection \<open>Deduplication\<close>

text \<open>
  Claim C6, as stated, fails: a hash can be fetched, enriched and stored twice. Announce
  10 001 different hashes to a new listener, letting each invocation run to its end
  before the next hash is announced, and then announce the last one again. Recording the
  10 001st hash takes the dedup set past 10 000, so its invocation clears the set, and
  the hash announced again is fetched (calls 10000 and 10001 of \<^verbatim>\<open>getTransaction\<close>)
  and written under the same key (commands 10000 and 10001 served by the cache).
\<close>

theorem hash_stored_twice_after_clear:
  "fetched (run demo_interface flood (new_listener empty_redis)) ! 10000 = pending_hash 10000
   \<and> fetched (run demo_interface flood (new_listener empty_redis)) ! 10001 = pending_hash 10000
   \<and> served (redisClient (run demo_interface flood (new_listener empty_redis))) ! 10000
        = SETEX (''mev:tx:'' @ pending_hash 10000) 300
   \<and> served (redisClient (run demo_interface flood (new_listener empty_redis))) ! 10001
        = SETEX (''mev:tx:'' @ pending_hash 10000) 300"
proof -
  let ?I = demo_interface
  let ?hs = "map pending_hash [0..<10000]"
  let ?h = "pending_hash 10000"
  let ?l1 = "run ?I (deliveries 10000) (new_listener empty_redis)"
  let ?l2 = "run ?I (complete_delivery 10000 ?h) ?l1"
  let ?l3 = "run ?I (complete_delivery 10001 ?h) ?l2"
  have whole: "run ?I flood (new_listener empty_redis) = ?l3"
    using deliveries_Suc[of 10000] by (simp add: flood_def run_append)
  have l1: "seenTxs ?l1 = ?hs" "fetched ?l1 = ?hs"
    "served (redisClient ?l1) = map (\<lambda>n. SETEX (''mev:tx:'' @ pending_hash n) 300) [0..<10000]"
    "healthy_calls (redisClient ?l1) = None" "length (invocations ?l1) = 10000"
    using deliveries_run[of 10000 ?I] by simp_all
  have f1: "?h \<notin> set (seenTxs ?l1)" by (simp add: l1(1) image_iff inj_pending_hash)
  note s2 = complete_delivery_run[OF f1 l1(4), of ?I, unfolded l1(5)]
  have l2: "seenTxs ?l2 = []" "length (invocations ?l2) = 10001"
    using s2(1,5) l1(1,5) by simp_all
  have f2: "?h \<notin> set (seenTxs ?l2)" using l2(1) by simp
  note s3 = complete_delivery_run[OF f2 s2(4), of ?I, unfolded l2(2)]
  have fetched3: "fetched ?l3 = ?hs @ [?h, ?h]"
    using s3(2) s2(2) l1(2) by simp
  have served3: "served (redisClient ?l3) =
      map (\<lambda>n. SETEX (''mev:tx:'' @ pending_hash n) 300) [0..<10000]
        @ [SETEX (''mev:tx:'' @ ?h) 300, SETEX (''mev:tx:'' @ ?h) 300]"
    using s3(3) s2(3) l1(3) by simp
  have nth0: "(xs @ [a, b]) ! 10000 = a" "(xs @ [a, b]) ! 10001 = b"
    if "length xs = 10000" for xs :: "'a list" and a b
    using that by (simp_all add: nth_append)
  show ?thesis unfolding whole fetched3 served3
    by (intro conjI nth0) simp_all
qed

text \<open>
  No clear is needed for that. When a hash is announced twice before the chain node has
  answered the first lookup, neither invocation finds it in the dedup set, and both
  fetch, enrich and store it.
\<close>

lemma hash_stored_twice_when_overlapping:
  "fetched (run demo_interface early_duplicate (new_listener empty_redis)) =
     [pending_hash 5, pending_hash 5]
   \<and> served (redisClient (run demo_interface early_duplicate (new_listener empty_redis))) =
     [SETEX (''mev:tx:'' @ pending_hash 5) 300, SETEX (''mev:tx:'' @ pending_hash 5) 300]
   \<and> clears (run demo_interface early_duplicate (new_listener empty_redis)) = 0"
  by (simp add: early_duplicate_def new_listener_def empty_redis_def
        handlePendingTransaction_def handlePendingTransaction_fetched_def
        handlePendingTransaction_resumed_def demo_chain_def set_add_def
        storeTransaction_call_def JSON_stringify_def enrichTransaction_def creation_of_def
        is_swap_def setEx_def serve_def Let_def REDIS_KEY_PREFIX_def MEMPOOL_TTL_def)

text \<open>
  Claim C6, amended. Whenever a hash is announced that is in the dedup set, the handler
  returns at once: the listener is as before (nothing is fetched, nothing is written to
  the cache) but for the record of this invocation. And a hash that is in the dedup set
  stays there until the set is next cleared: over any sequence of events during which
  \<^verbatim>\<open>seenTxs.clear()\<close> does not run, however the invocations overlap, the hash is
  still in the set at the end, it is never passed to \<^verbatim>\<open>getTransaction\<close>, and every
  invocation that was started for it has returned at once. A hash gets into the set as
  soon as the chain node has answered an invocation's lookup with its transaction, before
  that invocation enriches and stores it.
\<close>

theorem handlePendingTransaction_dedup:
  "(txHash \<in> set (seenTxs l) \<longrightarrow>
     handlePendingTransaction txHash l = l\<lparr>invocations := invocations l @ [(txHash, ReturnedSeen)]\<rparr>
     \<and> (clears (run I es l) = clears l \<longrightarrow>
          txHash \<in> set (seenTxs (run I es l))
          \<and> (\<exists>fs. fetched (run I es l) = fetched l @ fs \<and> txHash \<notin> set fs)
          \<and> (\<forall>i. length (invocations l) \<le> i \<and> i < length (invocations (run I es l))
                 \<and> fst (invocations (run I es l) ! i) = txHash
               \<longrightarrow> snd (invocations (run I es l) ! i) = ReturnedSeen)))
   \<and> (k < length (invocations l) \<longrightarrow> invocations l ! k = (txHash, AwaitingTransaction) \<longrightarrow>
        txHash \<in> set (seenTxs (step I (Answer k (Inr (Some tx)) now) l))
        \<and> invocations (step I (Answer k (Inr (Some tx)) now) l) ! k =
            (txHash, AwaitingEnriched (enrichTransaction I now tx)))"
proof -
  have seen: "txHash \<in> set (seenTxs l) \<longrightarrow>
     handlePendingTransaction txHash l = l\<lparr>invocations := invocations l @ [(txHash, ReturnedSeen)]\<rparr>
     \<and> (clears (run I es l) = clears l \<longrightarrow>
          txHash \<in> set (seenTxs (run I es l))
          \<and> (\<exists>fs. fetched (run I es l) = fetched l @ fs \<and> txHash \<notin> set fs)
          \<and> (\<forall>i. length (invocations l) \<le> i \<and> i < length (invocations (run I es l))
                 \<and> fst (invocations (run I es l) ! i) = txHash
               \<longrightarrow> snd (invocations (run I es l) ! i) = ReturnedSeen))"
  proof (intro impI conjI)
    assume "txHash \<in> set (seenTxs l)"
    then show "handlePendingTransaction txHash l =
                 l\<lparr>invocations := invocations l @ [(txHash, ReturnedSeen)]\<rparr>"
      by (simp add: handlePendingTransaction_def)
  next
    assume a: "txHash \<in> set (seenTxs l)" "clears (run I es l) = clears l"
    from dedup_trace[OF a] show "txHash \<in> set (seenTxs (run I es l))" by blast
  next
    assume a: "txHash \<in> set (seenTxs l)" "clears (run I es l) = clears l"
    from dedup_trace[OF a]
    show "\<exists>fs. fetched (run I es l) = fetched l @ fs \<and> txHash \<notin> set fs" by blast
  next
    assume a: "txHash \<in> set (seenTxs l)" "clears (run I es l) = clears l"
    from dedup_trace[OF a]
    show "\<forall>i. length (invocations l) \<le> i \<and> i < length (invocations (run I es l))
                   \<and> fst (invocations (run I es l) ! i) = txHash
                 \<longrightarrow> snd (invocations (run I es l) ! i) = ReturnedSeen" by blast
  qed
  have recorded: "k < length (invocations l) \<longrightarrow> invocations l ! k = (txHash, AwaitingTransaction) \<longrightarrow>
        txHash \<in> set (seenTxs (step I (Answer k (Inr (Some tx)) now) l))
        \<and> invocations (step I (Answer k (Inr (Some tx)) now) l) ! k =
            (txHash, AwaitingEnriched (enrichTransaction I now tx))"
    by (simp add: handlePendingTransaction_fetched_def set_add_def Let_def)
  show ?thesis by (rule conjI[OF seen recorded])
qed

lemma seen_once_run:
  "run demo_interface announced_again seen_once =
     \<lparr>seenTxs = [pending_hash 5, pending_hash 6],
      redisClient = \<lparr>entries =
          [(''mev:tx:'' @ pending_hash 5,
            \<lparr>content = RString (enrichTransaction demo_interface 0 (creation_of (pending_hash 5))),
             expiry = Some 300\<rparr>),
           (''mev:tx:'' @ pending_hash 6,
            \<lparr>content = RString (enrichTransaction demo_interface 0 (creation_of (pending_hash 6))),
             expiry = Some 300\<rparr>)],
        healthy_calls = None,
        served = [SETEX (''mev:tx:'' @ pending_hash 5) 300, SETEX (''mev:tx:'' @ pending_hash 6) 300]\<rparr>,
      invocations = [(pending_hash 5, Returned), (pending_hash 5, ReturnedSeen),
                     (pending_hash 6, Returned)],
      fetched = [pending_hash 5, pending_hash 6], clears = 0\<rparr>"
  by (simp add: seen_once_def announced_again_def complete_delivery_def begun_delivery_def
        new_listener_def empty_redis_def inj_pending_hash
        handlePendingTransaction_def handlePendingTransaction_fetched_def
        handlePendingTransaction_resumed_def demo_chain_def set_add_def
        storeTransaction_call_def JSON_stringify_def enrichTransaction_def creation_of_def
        is_swap_def setEx_def serve_def Let_def REDIS_KEY_PREFIX_def MEMPOOL_TTL_def)

theorem handlePendingTransaction_dedup_witness:
  "pending_hash 5 \<in> set (seenTxs seen_once)
   \<and> clears (run demo_interface announced_again seen_once) = clears seen_once
   \<and> handlePendingTransaction (pending_hash 5) seen_once =
       seen_once\<lparr>invocations := invocations seen_once @ [(pending_hash 5, ReturnedSeen)]\<rparr>
   \<and> pending_hash 5 \<in> set (seenTxs (run demo_interface announced_again seen_once))
   \<and> fetched (run demo_interface announced_again seen_once) = fetched seen_once @ [pending_hash 6]
   \<and> snd (invocations (run demo_interface announced_again seen_once) ! 1) = ReturnedSeen
   \<and> invocations (handlePendingTransaction (pending_hash 5) (new_listener empty_redis)) ! 0 =
       (pending_hash 5, AwaitingTransaction)
   \<and> pending_hash 5 \<in> set (seenTxs
        (step demo_interface (Answer 0 (demo_chain (pending_hash 5)) 0)
           (handlePendingTransaction (pending_hash 5) (new_listener empty_redis))))"
proof -
  have once: "seenTxs seen_once = [pending_hash 5]" "fetched seen_once = [pending_hash 5]"
    "invocations seen_once = [(pending_hash 5, Returned)]" "clears seen_once = 0"
    using complete_delivery_run[of "pending_hash 5" "new_listener empty_redis" demo_interface]
    by (simp_all add: seen_once_def new_listener_def empty_redis_def)
  have seen: "pending_hash 5 \<in> set (seenTxs seen_once)" by (simp add: once)
  have quiet: "clears (run demo_interface announced_again seen_once) = clears seen_once"
    by (simp add: seen_once_run once)
  from handlePendingTransaction_dedup[of "pending_hash 5" seen_once demo_interface announced_again]
    seen quiet
  have first: "handlePendingTransaction (pending_hash 5) seen_once =
          seen_once\<lparr>invocations := invocations seen_once @ [(pending_hash 5, ReturnedSeen)]\<rparr>"
    "pending_hash 5 \<in> set (seenTxs (run demo_interface announced_again seen_once))"
    by blast+
  let ?l = "handlePendingTransaction (pending_hash 5) (new_listener empty_redis)"
  have waiting: "0 < length (invocations ?l)"
    "invocations ?l ! 0 = (pending_hash 5, AwaitingTransaction)"
    by (simp_all add: handlePendingTransaction_def new_listener_def)
  from handlePendingTransaction_dedup[of "pending_hash 5" ?l demo_interface "[]" 0
      "creation_of (pending_hash 5)" 0] waiting
  have second: "pending_hash 5 \<in> set (seenTxs
        (step demo_interface (Answer 0 (demo_chain (pending_hash 5)) 0) ?l))"
    unfolding demo_chain_def by blast
  from seen quiet first second waiting(2) show ?thesis by (simp add: seen_once_run once)
qed

subsection \<open>The bound on the dedup set\<close>

text \<open>
  Claim C7, as stated, fails: an invocation can complete while the dedup set holds more
  than 10 000 hashes. After 10 000 different hashes, one more is announced; its
  invocation records it, which makes 10 001, and then waits for the cache. While it
  waits, a hash that is in the set is announced: that invocation (number 10001) returns
  at once, and the set still holds 10 001 hashes.
\<close>

theorem seen_hash_returns_over_bound:
  "length (seenTxs (run demo_interface late_duplicate (new_listener empty_redis))) = 10001
   \<and> invocations (run demo_interface late_duplicate (new_listener empty_redis)) ! 10001
        = (pending_hash 5, ReturnedSeen)"
proof -
  let ?I = demo_interface
  let ?h = "pending_hash 10000"
  let ?l1 = "run ?I (deliveries 10000) (new_listener empty_redis)"
  let ?l2 = "run ?I (begun_delivery 10000 ?h) ?l1"
  have whole: "run ?I late_duplicate (new_listener empty_redis) =
                 handlePendingTransaction (pending_hash 5) ?l2"
    by (simp add: late_duplicate_def run_append)
  have l1: "seenTxs ?l1 = map pending_hash [0..<10000]"
    "healthy_calls (redisClient ?l1) = None" "length (invocations ?l1) = 10000"
    using deliveries_run[of 10000 ?I] by simp_all
  have f1: "?h \<notin> set (seenTxs ?l1)" by (simp add: l1(1) image_iff inj_pending_hash)
  note s2 = begun_delivery_run[OF f1 l1(2), of ?I, unfolded l1(3)]
  have l2: "seenTxs ?l2 = map pending_hash [0..<10000] @ [?h]" "length (invocations ?l2) = 10001"
    using s2(1,5) l1(1,3) by simp_all
  have seen: "pending_hash 5 \<in> set (seenTxs ?l2)"
    by (simp add: l2(1) image_iff inj_pending_hash)
  show ?thesis unfolding whole
    using seen l2 by (simp add: handlePendingTransaction_def nth_append)
qed

text \<open>
  Claim C7, amended. At every moment of every run of a new listener, the dedup set holds
  at most 10 000 hashes plus one for every invocation that has recorded its hash and has
  not returned yet. And when an invocation that has recorded its hash returns, the set
  holds at most 10 000 hashes: if it holds more, this invocation clears it wholesale.
\<close>

theorem dedup_set_bounded:
  "length (seenTxs (run I es (new_listener r))) \<le> 10000 + in_flight (run I es (new_listener r))
   \<and> (i < length (invocations l) \<longrightarrow>
        invocations l ! i = (txHash, AwaitingStored enrichedTx None) \<longrightarrow>
          invocations (step I (Resume i) l) ! i = (txHash, Returned)
          \<and> length (seenTxs (step I (Resume i) l)) \<le> 10000
          \<and> (10000 < length (seenTxs l) \<longrightarrow> seenTxs (step I (Resume i) l) = []))"
proof (intro conjI impI)
  show "length (seenTxs (run I es (new_listener r))) \<le> 10000 + in_flight (run I es (new_listener r))"
    by (rule run_bound) (simp add: new_listener_def in_flight_def)
next
  assume "i < length (invocations l)" "invocations l ! i = (txHash, AwaitingStored enrichedTx None)"
  then show "invocations (step I (Resume i) l) ! i = (txHash, Returned)"
    by (simp add: handlePendingTransaction_resumed_def)
next
  assume "i < length (invocations l)" "invocations l ! i = (txHash, AwaitingStored enrichedTx None)"
  then show "length (seenTxs (step I (Resume i) l)) \<le> 10000"
    by (simp add: handlePendingTransaction_resumed_def)
next
  assume "i < length (invocations l)" "invocations l ! i = (txHash, AwaitingStored enrichedTx None)"
    "10000 < length (seenTxs l)"
  then show "seenTxs (step I (Resume i) l) = []"
    by (simp add: handlePendingTransaction_resumed_def)
qed

theorem dedup_set_bounded_witness:
  "length (seenTxs about_to_return) = 10001
   \<and> invocations about_to_return ! 10000 =
        (pending_hash 10000,
         AwaitingStored (enrichTransaction demo_interface 0 (creation_of (pending_hash 10000))) None)
   \<and> seenTxs (step demo_interface (Resume 10000) about_to_return) = []
   \<and> invocations (step demo_interface (Resume 10000) about_to_return) ! 10000 =
        (pending_hash 10000, Returned)"
proof -
  let ?I = demo_interface
  let ?h = "pending_hash 10000"
  let ?etx = "enrichTransaction ?I 0 (creation_of ?h)"
  let ?l1 = "run ?I (deliveries 10000) (new_listener empty_redis)"
  let ?l2 = "run ?I (begun_delivery 10000 ?h) ?l1"
  have l1: "seenTxs ?l1 = map pending_hash [0..<10000]"
    "healthy_calls (redisClient ?l1) = None" "length (invocations ?l1) = 10000"
    using deliveries_run[of 10000 ?I] by simp_all
  have f1: "?h \<notin> set (seenTxs ?l1)" by (simp add: l1(1) image_iff inj_pending_hash)
  note s2 = begun_delivery_run[OF f1 l1(2), of ?I, unfolded l1(3)]
  have r1: "step ?I (Resume (length (invocations ?l1))) ?l2 =
              ?l2\<lparr>invocations := invocations ?l1 @ [(?h, AwaitingStored ?etx None)]\<rparr>"
    by (rule resume_reply[OF s2(5) creation_not_swap])
  have whole: "about_to_return = ?l2\<lparr>invocations := invocations ?l1 @ [(?h, AwaitingStored ?etx None)]\<rparr>"
    using r1 by (simp add: about_to_return_def run_append l1(3) del: step.simps)
  have len: "length (seenTxs about_to_return) = 10001"
    by (simp add: whole s2(1) l1(1))
  have inv: "invocations about_to_return ! 10000 = (?h, AwaitingStored ?etx None)"
    by (simp add: whole nth_append l1(3))
  have i: "10000 < length (invocations about_to_return)"
    by (simp add: whole l1(3))
  from dedup_set_bounded[of ?I "[]" empty_redis 10000 about_to_return ?h ?etx] i inv len
  have "invocations (step ?I (Resume 10000) about_to_return) ! 10000 = (?h, Returned)"
    "seenTxs (step ?I (Resume 10000) about_to_return) = []"
    by simp_all
  with len inv show ?thesis by simp
qed

subsection \<open>storeTransaction\<close>

text \<open>A transaction whose decoded call holds a \<^verbatim>\<open>bigint\<close> is not stored at all:
  \<^verbatim>\<open>JSON.stringify\<close> throws before the first command is sent.\<close>

lemma storeTransaction_bigint:
  assumes "tx_decodedCall tx = Some d" "decoded_call_has_bigint d"
  shows "storeTransaction tx r = r"
  using assms by (simp add: storeTransaction_def JSON_stringify_def)

text \<open>
  Claim C8 fails on the code for every decoded swap. The enriched form of the swap
  \<^verbatim>\<open>swapExactTokensForTokens(10^18, 0, [WAVAX, USDC], to, deadline)\<close> sent to the
  TraderJoe router is a swap, and \<^verbatim>\<open>storeTransaction\<close> leaves the cache as it was:
  no \<^verbatim>\<open>tx:\<close> key, no \<^verbatim>\<open>swaps:\<close> key, no queue entry.
\<close>

theorem storeTransaction_swap_not_stored:
  "is_swap (enrichTransaction demo_interface 0 demo_swap_response)
   \<and> tx_hash (enrichTransaction demo_interface 0 demo_swap_response) = ''0xaaaa''
   \<and> storeTransaction (enrichTransaction demo_interface 0 demo_swap_response) empty_redis
       = empty_redis"
proof -
  let ?tx = "enrichTransaction demo_interface 0 demo_swap_response"
  have router: "dexInterfaces demo_interface (toLowerCase ''0x60aE616a2155Ee3d9A68541Ba4544862310933d4'')
      = Some demo_interface"
    using known_router_lower by (simp add: dexInterfaces_def)
  obtain d where d: "tx_decodedCall ?tx = Some d" "isSwap d" "args d = demo_args"
    using router
    by (simp add: enrichTransaction_def demo_swap_response_def decodeTransaction_def
        demo_interface_def Let_def swap_details_def result_index_def demo_args_def)
  have big: "decoded_call_has_bigint d"
    using d(3) by (simp add: decoded_call_has_bigint_def demo_args_def)
  have "is_swap ?tx" using d by (simp add: is_swap_def)
  moreover have "tx_hash ?tx = ''0xaaaa''"
    by (simp add: enrichTransaction_def demo_swap_response_def)
  ultimately show ?thesis using storeTransaction_bigint[OF d(1) big] by simp
qed



lemma setEx_healthy:
  assumes "healthy_calls r = None"
  obtains r1 where "setEx k n v r = (Inr (), r1)" "healthy_calls r1 = None"
    "map_of (entries r1) = (map_of (entries r))(k \<mapsto> \<lparr>content = RString v, expiry = Some n\<rparr>)"
  using assms by (simp add: setEx_def serve_healthy AList.update_conv')

lemma lPush_healthy:
  assumes "healthy_calls r = None"
    and "\<And>en s. map_of (entries r) k = Some en \<Longrightarrow> content en \<noteq> RString s"
  obtains n r1 en where "lPush k v r = (Inr n, r1)" "healthy_calls r1 = None"
    "map_of (entries r1) = (map_of (entries r))(k \<mapsto> en)"
    "content en = RList (v # (case map_of (entries r) k of None \<Rightarrow> []
                              | Some e \<Rightarrow> (case content e of RList xs \<Rightarrow> xs | RString s \<Rightarrow> [])))"
proof (cases "map_of (entries r) k")
  case None
  show ?thesis
    by (rule that[of 1 "snd (lPush k v r)" "\<lparr>content = RList [v], expiry = None\<rparr>"])
       (use assms(1) None in \<open>simp_all add: lPush_def serve_healthy AList.update_conv'\<close>)
next
  case (Some e)
  with assms(2) obtain xs where xs: "content e = RList xs"
    by (cases "content e") auto
  show ?thesis
    by (rule that[of "Suc (length xs)" "snd (lPush k v r)" "e\<lparr>content := RList (v # xs)\<rparr>"])
       (use assms(1) Some xs in \<open>simp_all add: lPush_def serve_healthy AList.update_conv'\<close>)
qed

lemma lTrim_healthy:
  assumes "healthy_calls r = None" "map_of (entries r) k = Some en" "content en = RList (x # xs)"
  obtains r1 en1 where "lTrim k 0 999 r = (Inr (), r1)" "healthy_calls r1 = None"
    "map_of (entries r1) = (map_of (entries r))(k \<mapsto> en1)"
    "content en1 = RList (take 1000 (x # xs))"
  by (rule that[of "snd (lTrim k 0 999 r)" "en\<lparr>content := RList (take 1000 (x # xs))\<rparr>"])
     (use assms in \<open>simp_all add: lTrim_def serve_healthy AList.update_conv' Let_def\<close>)

lemma storeTransaction_plain:
  assumes "healthy_calls r = None" "JSON_stringify tx = Inr tx" "\<not> is_swap tx"
  shows "map_of (entries (storeTransaction tx r)) =
           (map_of (entries r))(REDIS_KEY_PREFIX @ ''tx:'' @ tx_hash tx
              \<mapsto> \<lparr>content = RString tx, expiry = Some MEMPOOL_TTL\<rparr>)"
proof -
  from setEx_healthy[OF assms(1), of "REDIS_KEY_PREFIX @ ''tx:'' @ tx_hash tx" MEMPOOL_TTL tx]
  obtain r1 where r1: "setEx (REDIS_KEY_PREFIX @ ''tx:'' @ tx_hash tx) MEMPOOL_TTL tx r = (Inr (), r1)"
    "map_of (entries r1) = (map_of (entries r))(REDIS_KEY_PREFIX @ ''tx:'' @ tx_hash tx
        \<mapsto> \<lparr>content = RString tx, expiry = Some MEMPOOL_TTL\<rparr>)" by blast
  show ?thesis using assms(2,3) r1 by (simp add: storeTransaction_def Let_def)
qed

lemma storeTransaction_swap:
  assumes healthy: "healthy_calls r = None" and json: "JSON_stringify tx = Inr tx"
    and swap: "is_swap tx"
    and list: "\<And>en s. map_of (entries r) (REDIS_KEY_PREFIX @ ''swap_queue'') = Some en
                 \<Longrightarrow> content en \<noteq> RString s"
  shows "map_of (entries (storeTransaction tx r)) (REDIS_KEY_PREFIX @ ''tx:'' @ tx_hash tx)
           = Some \<lparr>content = RString tx, expiry = Some MEMPOOL_TTL\<rparr>
       \<and> map_of (entries (storeTransaction tx r)) (REDIS_KEY_PREFIX @ ''swaps:'' @ tx_hash tx)
           = Some \<lparr>content = RString tx, expiry = Some MEMPOOL_TTL\<rparr>
       \<and> queued (storeTransaction tx r) = take 1000 (tx_hash tx # queued r)"
proof -
  let ?k = "REDIS_KEY_PREFIX @ ''tx:'' @ tx_hash tx"
  let ?s = "REDIS_KEY_PREFIX @ ''swaps:'' @ tx_hash tx"
  let ?q = "REDIS_KEY_PREFIX @ ''swap_queue''"
  let ?doc = "\<lparr>content = RString tx, expiry = Some MEMPOOL_TTL\<rparr>"
  have ne: "?k \<noteq> ?s" "?k \<noteq> ?q" "?s \<noteq> ?q" by (simp_all add: REDIS_KEY_PREFIX_def)
  from setEx_healthy[OF healthy, of ?k MEMPOOL_TTL tx]
  obtain r1 where r1: "setEx ?k MEMPOOL_TTL tx r = (Inr (), r1)" "healthy_calls r1 = None"
    "map_of (entries r1) = (map_of (entries r))(?k \<mapsto> ?doc)" by blast
  from setEx_healthy[OF r1(2), of ?s MEMPOOL_TTL tx]
  obtain r2 where r2: "setEx ?s MEMPOOL_TTL tx r1 = (Inr (), r2)" "healthy_calls r2 = None"
    "map_of (entries r2) = (map_of (entries r1))(?s \<mapsto> ?doc)" by blast
  have q2: "map_of (entries r2) ?q = map_of (entries r) ?q"
    using r1(3) r2(3) ne by simp
  have list2: "\<And>en s. map_of (entries r2) ?q = Some en \<Longrightarrow> content en \<noteq> RString s"
    using list q2 by simp
  from lPush_healthy[OF r2(2) list2, where v = "tx_hash tx"]
  obtain n r3 en where r3: "lPush ?q (tx_hash tx) r2 = (Inr n, r3)" "healthy_calls r3 = None"
    "map_of (entries r3) = (map_of (entries r2))(?q \<mapsto> en)"
    "content en = RList (tx_hash tx # (case map_of (entries r2) ?q of None \<Rightarrow> []
                              | Some e \<Rightarrow> (case content e of RList xs \<Rightarrow> xs | RString s \<Rightarrow> [])))"
    by blast
  have en: "content en = RList (tx_hash tx # queued r)"
    using r3(4) q2 by (simp add: queued_def)
  have present: "map_of (entries r3) ?q = Some en" using r3(3) by simp
  from lTrim_healthy[OF r3(2) present en]
  obtain r4 en4 where r4: "lTrim ?q 0 999 r3 = (Inr (), r4)"
    "map_of (entries r4) = (map_of (entries r3))(?q \<mapsto> en4)"
    "content en4 = RList (take 1000 (tx_hash tx # queued r))" by blast
  have res: "storeTransaction tx r = r4"
    using json swap r1(1) r2(1) r3(1) r4(1) by (simp add: storeTransaction_def Let_def)
  show ?thesis
    unfolding res using r4(2,3) r3(3) r2(3) r1(3) ne
    by (simp add: queued_def)
qed

text \<open>
  When \<^verbatim>\<open>JSON.stringify(tx)\<close> succeeds and the cache serves every command,
  \<^verbatim>\<open>storeTransaction\<close> writes the transaction under \<^verbatim>\<open>mev:tx:<hash>\<close> with a TTL
  of 300 s. Exactly when the transaction is a swap it also writes it under
  \<^verbatim>\<open>mev:swaps:<hash>\<close> with the same TTL, pushes the hash onto the left of
  \<^verbatim>\<open>mev:swap_queue\<close> and keeps the newest 1 000 entries of that list.
\<close>

theorem storeTransaction_writes:
  assumes healthy: "healthy_calls r = None" and json: "JSON_stringify tx = Inr tx"
    and list: "\<And>en s. map_of (entries r) (REDIS_KEY_PREFIX @ ''swap_queue'') = Some en
                 \<Longrightarrow> content en \<noteq> RString s"
  shows "map_of (entries (storeTransaction tx r)) (''mev:tx:'' @ tx_hash tx)
           = Some \<lparr>content = RString tx, expiry = Some 300\<rparr>
       \<and> (is_swap tx \<longrightarrow>
            map_of (entries (storeTransaction tx r)) (''mev:swaps:'' @ tx_hash tx)
              = Some \<lparr>content = RString tx, expiry = Some 300\<rparr>
            \<and> queued (storeTransaction tx r) = take 1000 (tx_hash tx # queued r)
            \<and> length (queued (storeTransaction tx r)) \<le> 1000)
       \<and> (\<not> is_swap tx \<longrightarrow>
            map_of (entries (storeTransaction tx r)) (''mev:swaps:'' @ tx_hash tx)
              = map_of (entries r) (''mev:swaps:'' @ tx_hash tx)
            \<and> queued (storeTransaction tx r) = queued r)"
proof (cases "is_swap tx")
  case True
  from storeTransaction_swap[OF healthy json True list] True show ?thesis
    by (simp add: REDIS_KEY_PREFIX_def MEMPOOL_TTL_def)
next
  case False
  from storeTransaction_plain[OF healthy json False] False show ?thesis
    by (simp add: REDIS_KEY_PREFIX_def MEMPOOL_TTL_def queued_def)
qed

theorem storeTransaction_writes_witness:
  "map_of (entries (storeTransaction flagged_swap empty_redis)) ''mev:tx:0xbbbb''
           = Some \<lparr>content = RString flagged_swap, expiry = Some 300\<rparr>
   \<and> map_of (entries (storeTransaction flagged_swap empty_redis)) ''mev:swaps:0xbbbb''
           = Some \<lparr>content = RString flagged_swap, expiry = Some 300\<rparr>
   \<and> queued (storeTransaction flagged_swap empty_redis) = [''0xbbbb'']"
proof -
  have h: "healthy_calls empty_redis = None" "JSON_stringify flagged_swap = Inr flagged_swap"
    "is_swap flagged_swap" "tx_hash flagged_swap = ''0xbbbb''" "queued empty_redis = []"
    by (simp_all add: empty_redis_def JSON_stringify_def flagged_swap_def is_swap_def
        decoded_call_has_bigint_def queued_def)
  have l: "\<And>en s. map_of (entries empty_redis) (REDIS_KEY_PREFIX @ ''swap_queue'') = Some en
                 \<Longrightarrow> content en \<noteq> RString s"
    by (simp add: empty_redis_def)
  from storeTransaction_writes[OF h(1,2) l] h(3,4,5) show ?thesis by simp
qed

text \<open>
  The function cut at its awaits and the function as one call agree: a call that is
  resumed until it returns, with no other command reaching the cache in between, leaves
  the cache as \<^verbatim>\<open>storeTransaction\<close> does.
\<close>

lemma storeTransaction_alone:
  "store_alone (Suc (Suc (Suc (Suc 0)))) tx (storeTransaction_call tx r) = storeTransaction tx r"
  by (simp add: storeTransaction_call_def storeTransaction_def Let_def
           split: sum.splits prod.splits)

end
